theory Spec2Isabelle
  imports Main "HOL-Library.AList"
begin

section \<open>Python values, dictionaries and exceptions\<close>

text \<open>
  The toolkit moves records (Python dictionaries from field names to cell values)
  through three stages: \<open>SecurityHandler\<close> (security.py), \<open>DataMapper\<close> (mapper.py)
  and \<open>DataValidator\<close> (validator.py).  Cell values are modelled as the scalars
  \<open>None\<close>, integers and strings.  Floats (with NaN) and nested lists or dictionaries
  as input cells are outside the model; strings are ASCII, one \<open>char\<close> per character.
  A dictionary is an association list in insertion order: \<open>map_of\<close> is lookup,
  \<open>AList.update\<close> is item assignment (in place for an existing key, appended
  otherwise), \<open>map fst\<close> is \<open>keys()\<close>.
\<close>

datatype pyval = PNone | PInt int | PStr string

type_synonym pyrec = "(string \<times> pyval) list"

datatype pyerr = ValueError | TypeError | KeyError | OverflowError | InvalidToken | OtherError

text \<open>A raising computation returns \<open>Inl\<close> of the exception; \<open>ebind\<close> sequences two.\<close>

definition ebind :: "pyerr + 'a \<Rightarrow> ('a \<Rightarrow> pyerr + 'b) \<Rightarrow> pyerr + 'b" where
  "ebind m f = (case m of Inl e \<Rightarrow> Inl e | Inr x \<Rightarrow> f x)"

text \<open>\<open>try: body except ValueError: handler\<close>: only \<open>ValueError\<close> is caught.\<close>

definition except_ValueError :: "pyerr + 'a \<Rightarrow> 'a \<Rightarrow> pyerr + 'a" where
  "except_ValueError body handler =
     (case body of Inl ValueError \<Rightarrow> Inr handler | Inl e \<Rightarrow> Inl e | Inr x \<Rightarrow> Inr x)"

fun efold :: "('a \<Rightarrow> 's \<Rightarrow> pyerr + 's) \<Rightarrow> 'a list \<Rightarrow> 's \<Rightarrow> pyerr + 's" where
  "efold f [] s = Inr s"
| "efold f (x # xs) s = (case f x s of Inl e \<Rightarrow> Inl e | Inr s' \<Rightarrow> efold f xs s')"

fun truthy :: "pyval \<Rightarrow> bool" where
  "truthy PNone = False"
| "truthy (PInt n) = (n \<noteq> 0)"
| "truthy (PStr s) = (s \<noteq> [])"

definition digit_char :: "nat \<Rightarrow> char" where
  "digit_char n = ''0123456789'' ! (n mod 10)"

function str_nat :: "nat \<Rightarrow> string" where
  "str_nat n = (if n < 10 then [digit_char n] else str_nat (n div 10) @ [digit_char n])"
  by pat_completeness auto
termination
  by (relation "measure id") auto

declare str_nat.simps [simp del]

text \<open>\<open>str(v)\<close>, which is also what an f-string prints for \<open>{v}\<close>.\<close>

fun py_str :: "pyval \<Rightarrow> string" where
  "py_str PNone = ''None''"
| "py_str (PInt n) = (if n < 0 then CHR ''-'' # str_nat (nat (- n)) else str_nat (nat n))"
| "py_str (PStr s) = s"

fun join :: "string \<Rightarrow> string list \<Rightarrow> string" where
  "join sep [] = []"
| "join sep [x] = x"
| "join sep (x # y # ys) = x @ sep @ join sep (y # ys)"

text \<open>\<open>s.split(c)\<close> for a one-character separator: the result is never empty.\<close>

fun split_on :: "char \<Rightarrow> string \<Rightarrow> string list" where
  "split_on c [] = [[]]"
| "split_on c (x # xs) =
     (if x = c then [] # split_on c xs
      else (case split_on c xs of [] \<Rightarrow> [[x]] | p # ps \<Rightarrow> (x # p) # ps))"

definition is_digit :: "char \<Rightarrow> bool" where
  "is_digit c = (c \<in> set ''0123456789'')"

definition digit_val :: "char \<Rightarrow> nat" where
  "digit_val c = of_char c - 48"

text \<open>\<open>field in record and record[field]\<close>\<close>

definition present_truthy :: "pyrec \<Rightarrow> string \<Rightarrow> bool" where
  "present_truthy r f = (case map_of r f of None \<Rightarrow> False | Some v \<Rightarrow> truthy v)"

section \<open>\<open>datetime.strptime\<close> for the formats the toolkit uses\<close>

text \<open>
  CPython turns a format into a regular expression, takes the first match that
  backtracking finds (\<open>re.match\<close>), rejects unconverted trailing data and then builds
  the date, which rejects year 0 and a day beyond the month's length; each failure is a
  \<open>ValueError\<close>.  Every directive is a function from the remaining input to its
  possible matches in the order the regular expression tries them:
  \<open>%Y\<close> is \<open>\d\d\d\d\<close>, \<open>%m\<close> is \<open>1[0-2]|0[1-9]|[1-9]\<close>,
  \<open>%d\<close> is \<open>3[0-1]|[1-2]\d|0[1-9]|[1-9]| [1-9]\<close>, and \<open>%b\<close> is the list of
  English month abbreviations, matched ignoring case.
\<close>

type_synonym date = "nat \<times> nat \<times> nat"

definition is_digit19 :: "char \<Rightarrow> bool" where
  "is_digit19 c = (c \<in> set ''123456789'')"

definition rx_Y :: "string \<Rightarrow> (nat \<times> string) list" where
  "rx_Y s = (case s of
       a # b # c # d # r \<Rightarrow>
         (if is_digit a \<and> is_digit b \<and> is_digit c \<and> is_digit d
          then [(1000 * digit_val a + 100 * digit_val b + 10 * digit_val c + digit_val d, r)]
          else [])
     | _ \<Rightarrow> [])"

definition rx_one :: "string \<Rightarrow> (nat \<times> string) list" where
  "rx_one s = (case s of a # r \<Rightarrow> (if is_digit19 a then [(digit_val a, r)] else []) | _ \<Rightarrow> [])"

definition rx_m :: "string \<Rightarrow> (nat \<times> string) list" where
  "rx_m s =
     (case s of
        a # b # r \<Rightarrow>
          (if a = CHR ''1'' \<and> b \<in> set ''012'' then [(10 + digit_val b, r)] else []) @
          (if a = CHR ''0'' \<and> is_digit19 b then [(digit_val b, r)] else [])
      | _ \<Rightarrow> []) @ rx_one s"

definition rx_d :: "string \<Rightarrow> (nat \<times> string) list" where
  "rx_d s =
     (case s of
        a # b # r \<Rightarrow>
          (if a = CHR ''3'' \<and> b \<in> set ''01'' then [(30 + digit_val b, r)] else []) @
          (if a \<in> set ''12'' \<and> is_digit b then [(10 * digit_val a + digit_val b, r)] else []) @
          (if a = CHR ''0'' \<and> is_digit19 b then [(digit_val b, r)] else [])
      | _ \<Rightarrow> []) @ rx_one s @
     (case s of
        a # b # r \<Rightarrow> (if a = CHR '' '' \<and> is_digit19 b then [(digit_val b, r)] else [])
      | _ \<Rightarrow> [])"

definition rx_lit :: "char \<Rightarrow> string \<Rightarrow> string list" where
  "rx_lit c s = (case s of a # r \<Rightarrow> (if a = c then [r] else []) | _ \<Rightarrow> [])"

definition is_leap :: "nat \<Rightarrow> bool" where
  "is_leap y = (y mod 4 = 0 \<and> (y mod 100 \<noteq> 0 \<or> y mod 400 = 0))"

definition days_in_month :: "nat \<Rightarrow> nat \<Rightarrow> nat" where
  "days_in_month y m =
     (if m = 2 then (if is_leap y then 29 else 28)
      else if m \<in> {4, 6, 9, 11} then 30 else 31)"

text \<open>The matches of a whole format, first one used; then the two checks.\<close>

definition finish_strptime :: "(date \<times> string) list \<Rightarrow> pyerr + date" where
  "finish_strptime ms =
     (case ms of
        [] \<Rightarrow> Inl ValueError
      | ((y, m, d), rest) # _ \<Rightarrow>
          if rest \<noteq> [] then Inl ValueError
          else if y < 1 \<or> d > days_in_month y m then Inl ValueError
          else Inr (y, m, d))"

definition match_ymd :: "string \<Rightarrow> (date \<times> string) list" where
  "match_ymd s =
     [((y, m, d), r5).
        (y, r1) \<leftarrow> rx_Y s, r2 \<leftarrow> rx_lit CHR ''-'' r1, (m, r3) \<leftarrow> rx_m r2,
        r4 \<leftarrow> rx_lit CHR ''-'' r3, (d, r5) \<leftarrow> rx_d r4]"

text \<open>\<open>datetime.strptime(s, '%Y-%m-%d')\<close> on a string.\<close>

definition strptime_iso :: "string \<Rightarrow> pyerr + date" where
  "strptime_iso s = finish_strptime (match_ymd s)"

text \<open>The validator passes the cell itself: a cell that is not a string is a \<open>TypeError\<close>.\<close>

fun strptime_ymd :: "pyval \<Rightarrow> pyerr + date" where
  "strptime_ymd (PStr s) = strptime_iso s"
| "strptime_ymd v = Inl TypeError"

fun date_lt :: "date \<Rightarrow> date \<Rightarrow> bool" where
  "date_lt (y1, m1, d1) (y2, m2, d2) =
     (y1 < y2 \<or> (y1 = y2 \<and> (m1 < m2 \<or> (m1 = m2 \<and> d1 < d2))))"

section \<open>The validator (validator.py)\<close>

text \<open>
  \<open>float(x)\<close>, the comparison of two floats and the text an f-string prints for a
  float are parameters of the model: the theorems hold for whatever they are.
\<close>

record 'f float_ops =
  py_float :: "pyval \<Rightarrow> pyerr + 'f"
  float_lt :: "'f \<Rightarrow> 'f \<Rightarrow> bool"
  float_str :: "'f \<Rightarrow> string"
  float_neg_inf :: 'f
  float_pos_inf :: 'f

text \<open>
  The rule set is the dictionary given to \<open>DataValidator\<close>; each category may be
  absent.  A range rule is itself a dictionary with the optional keys \<open>min\<close> and
  \<open>max\<close>.
\<close>

record validation_rules =
  required_fields :: "string list option"
  field_formats :: "(string \<times> string) list option"
  date_range :: "(string \<times> pyrec) list option"
  numeric_range :: "(string \<times> pyrec) list option"

record issues =
  rec_errors :: "string list"
  rec_warnings :: "string list"

record stats =
  total_records :: nat
  records_with_issues :: nat
  total_errors :: nat
  total_warnings :: nat

text \<open>The \<open>results\<close> dictionary that \<open>validate\<close> builds for a non-empty record set.\<close>

record results =
  is_valid :: bool
  errors :: "string list"
  warnings :: "string list"
  record_issues :: "(pyval \<times> issues) list"
  stats :: stats

text \<open>
  What \<open>validate\<close> returns: the two-key dictionary of the early return, or the
  five-key \<open>results\<close>.
\<close>

datatype verdict = EarlyVerdict bool "string list" | FullVerdict results

fun verdict_keys :: "verdict \<Rightarrow> string list" where
  "verdict_keys (EarlyVerdict v es) = [''is_valid'', ''errors'']"
| "verdict_keys (FullVerdict r) =
     [''is_valid'', ''errors'', ''warnings'', ''record_issues'', ''stats'']"

fun verdict_is_valid :: "verdict \<Rightarrow> bool" where
  "verdict_is_valid (EarlyVerdict v es) = v"
| "verdict_is_valid (FullVerdict r) = is_valid r"

fun verdict_errors :: "verdict \<Rightarrow> string list" where
  "verdict_errors (EarlyVerdict v es) = es"
| "verdict_errors (FullVerdict r) = errors r"

fun verdict_warnings :: "verdict \<Rightarrow> string list" where
  "verdict_warnings (EarlyVerdict v es) = []"
| "verdict_warnings (FullVerdict r) = warnings r"

fun verdict_record_issues :: "verdict \<Rightarrow> (pyval \<times> issues) list" where
  "verdict_record_issues (EarlyVerdict v es) = []"
| "verdict_record_issues (FullVerdict r) = record_issues r"

text \<open>The argument of \<open>validate\<close>: \<open>None\<close> or a list of records.\<close>

datatype dataset = NoData | Records "pyrec list"

datatype issue_type = Errors | Warnings

text \<open>\<open>_add_record_issue\<close>\<close>

definition add_record_issue :: "results \<Rightarrow> pyval \<Rightarrow> issue_type \<Rightarrow> string \<Rightarrow> results" where
  "add_record_issue res rid t msg =
     (let cur = (case map_of (record_issues res) rid of
                   None \<Rightarrow> \<lparr>rec_errors = [], rec_warnings = []\<rparr>
                 | Some i \<Rightarrow> i);
          new = (case t of
                   Errors \<Rightarrow> cur\<lparr>rec_errors := rec_errors cur @ [msg]\<rparr>
                 | Warnings \<Rightarrow> cur\<lparr>rec_warnings := rec_warnings cur @ [msg]\<rparr>)
      in res\<lparr>record_issues := AList.update rid new (record_issues res)\<rparr>)"

text \<open>\<open>record.get("record_id", f"Record_{i}")\<close>\<close>

definition record_id_of :: "nat \<Rightarrow> pyrec \<Rightarrow> pyval" where
  "record_id_of i r =
     (case map_of r ''record_id'' of Some v \<Rightarrow> v | None \<Rightarrow> PStr (''Record_'' @ str_nat i))"

text \<open>\<open>_check_required_fields\<close>\<close>

definition check_required_record :: "string list \<Rightarrow> nat \<times> pyrec \<Rightarrow> results \<Rightarrow> results" where
  "check_required_record required ir res =
     (let record_id = record_id_of (fst ir) (snd ir);
          missing_fields = filter (\<lambda>field. \<not> present_truthy (snd ir) field) required
      in if missing_fields \<noteq> []
         then add_record_issue res record_id Errors
                (''Missing required fields: '' @ join '', '' missing_fields)
         else res)"

definition check_required_fields :: "validation_rules \<Rightarrow> pyrec list \<Rightarrow> results \<Rightarrow> results" where
  "check_required_fields rules data res =
     (let required = (case required_fields rules of None \<Rightarrow> [] | Some fs \<Rightarrow> fs)
      in if required = [] then res
         else fold (check_required_record required) (enumerate 0 data) res)"

text \<open>\<open>_is_valid_date\<close>, \<open>_is_valid_email\<close>, \<open>_is_valid_phone\<close>\<close>

definition is_valid_date :: "pyval \<Rightarrow> pyerr + bool" where
  "is_valid_date v = except_ValueError (ebind (strptime_ymd v) (\<lambda>d. Inr True)) False"

fun is_valid_email :: "pyval \<Rightarrow> pyerr + bool" where
  "is_valid_email (PStr s) =
     Inr (CHR ''@'' \<in> set s \<and> CHR ''.'' \<in> set (split_on CHR ''@'' s ! 1))"
| "is_valid_email v = Inl TypeError"

fun is_valid_phone :: "pyval \<Rightarrow> pyerr + bool" where
  "is_valid_phone (PStr s) = Inr (length (filter is_digit s) \<ge> 10)"
| "is_valid_phone v = Inl TypeError"

text \<open>\<open>_check_field_formats\<close>: the body for one record and one format rule.\<close>

definition check_format_field ::
  "nat \<times> pyrec \<Rightarrow> string \<times> string \<Rightarrow> results \<Rightarrow> pyerr + results" where
  "check_format_field ir rule res =
     (let record_id = record_id_of (fst ir) (snd ir); field = fst rule; format_rule = snd rule
      in if present_truthy (snd ir) field then
           (let v = the (map_of (snd ir) field) in
            ebind (if format_rule = ''date'' then ebind (is_valid_date v) (\<lambda>ok. Inr (\<not> ok))
                   else Inr False)
              (\<lambda>bad_date.
                 if bad_date then
                   Inr (add_record_issue res record_id Errors
                     (''Invalid date format in field '' @ [CHR 0x27] @ field @ [CHR 0x27]
                        @ '': '' @ py_str v))
                 else
                   ebind (if format_rule = ''email''
                          then ebind (is_valid_email v) (\<lambda>ok. Inr (\<not> ok)) else Inr False)
                     (\<lambda>bad_email.
                        if bad_email then
                          Inr (add_record_issue res record_id Errors
                            (''Invalid email format in field '' @ [CHR 0x27] @ field
                               @ [CHR 0x27] @ '': '' @ py_str v))
                        else
                          ebind (if format_rule = ''phone''
                                 then ebind (is_valid_phone v) (\<lambda>ok. Inr (\<not> ok))
                                 else Inr False)
                            (\<lambda>bad_phone.
                               if bad_phone then
                                 Inr (add_record_issue res record_id Errors
                                   (''Invalid phone format in field '' @ [CHR 0x27] @ field
                                      @ [CHR 0x27] @ '': '' @ py_str v))
                               else Inr res))))
         else Inr res)"

definition check_field_formats ::
  "validation_rules \<Rightarrow> pyrec list \<Rightarrow> results \<Rightarrow> pyerr + results" where
  "check_field_formats rules data res =
     (let format_rules = (case field_formats rules of None \<Rightarrow> [] | Some fr \<Rightarrow> fr)
      in if format_rules = [] then Inr res
         else efold (\<lambda>ir. efold (check_format_field ir) format_rules) (enumerate 0 data) res)"

text \<open>\<open>range_rule[key]\<close>: a missing key is a \<open>KeyError\<close>.\<close>

definition getitem :: "pyrec \<Rightarrow> string \<Rightarrow> pyerr + pyval" where
  "getitem d k = (case map_of d k of None \<Rightarrow> Inl KeyError | Some v \<Rightarrow> Inr v)"

text \<open>\<open>range_rule.get(key, default)\<close>\<close>

definition get_default :: "pyrec \<Rightarrow> string \<Rightarrow> pyval \<Rightarrow> pyval" where
  "get_default d k dflt = (case map_of d k of None \<Rightarrow> dflt | Some v \<Rightarrow> v)"

text \<open>
  \<open>_check_date_ranges\<close>: the body for one record and one range rule.  The \<open>try\<close>
  block parses the cell and both bounds, compares, and builds the message, which reads
  \<open>range_rule['min']\<close> or \<open>range_rule['max']\<close>; the \<open>except ValueError\<close> handler adds
  the parse error.
\<close>

definition check_date_field ::
  "nat \<times> pyrec \<Rightarrow> string \<times> pyrec \<Rightarrow> results \<Rightarrow> pyerr + results" where
  "check_date_field ir rule res =
     (let record_id = record_id_of (fst ir) (snd ir); field = fst rule; range_rule = snd rule
      in if present_truthy (snd ir) field then
           (let v = the (map_of (snd ir) field) in
            except_ValueError
              (ebind (strptime_ymd v) (\<lambda>date_value.
               ebind (strptime_ymd (get_default range_rule ''min'' (PStr ''1900-01-01'')))
                 (\<lambda>min_date.
               ebind (strptime_ymd (get_default range_rule ''max'' (PStr ''2100-12-31'')))
                 (\<lambda>max_date.
                  if date_lt date_value min_date then
                    ebind (getitem range_rule ''min'') (\<lambda>mn.
                      Inr (add_record_issue res record_id Errors
                        (''Date in field '' @ [CHR 0x27] @ field @ [CHR 0x27]
                           @ '' is before minimum allowed: '' @ py_str v @ '' < ''
                           @ py_str mn)))
                  else if date_lt max_date date_value then
                    ebind (getitem range_rule ''max'') (\<lambda>mx.
                      Inr (add_record_issue res record_id Errors
                        (''Date in field '' @ [CHR 0x27] @ field @ [CHR 0x27]
                           @ '' is after maximum allowed: '' @ py_str v @ '' > ''
                           @ py_str mx)))
                  else Inr res))))
              (add_record_issue res record_id Errors
                 (''Could not parse date in field '' @ [CHR 0x27] @ field @ [CHR 0x27]
                    @ '': '' @ py_str v)))
         else Inr res)"

definition check_date_ranges ::
  "validation_rules \<Rightarrow> pyrec list \<Rightarrow> results \<Rightarrow> pyerr + results" where
  "check_date_ranges rules data res =
     (let date_ranges = (case date_range rules of None \<Rightarrow> [] | Some dr \<Rightarrow> dr)
      in if date_ranges = [] then Inr res
         else efold (\<lambda>ir. efold (check_date_field ir) date_ranges) (enumerate 0 data) res)"

text \<open>\<open>float(range_rule.get(key, float(inf)))\<close>: the default is a float already.\<close>

definition float_bound :: "'f float_ops \<Rightarrow> pyrec \<Rightarrow> string \<Rightarrow> 'f \<Rightarrow> pyerr + 'f" where
  "float_bound F d k dflt = (case map_of d k of None \<Rightarrow> Inr dflt | Some v \<Rightarrow> py_float F v)"

text \<open>\<open>_check_numeric_ranges\<close>: the body for one record and one range rule.\<close>

definition check_numeric_field ::
  "'f float_ops \<Rightarrow> nat \<times> pyrec \<Rightarrow> string \<times> pyrec \<Rightarrow> results \<Rightarrow> pyerr + results" where
  "check_numeric_field F ir rule res =
     (let record_id = record_id_of (fst ir) (snd ir); field = fst rule; range_rule = snd rule
      in if present_truthy (snd ir) field then
           (let v = the (map_of (snd ir) field) in
            except_ValueError
              (ebind (py_float F v) (\<lambda>x.
               ebind (float_bound F range_rule ''min'' (float_neg_inf F)) (\<lambda>min_val.
               ebind (float_bound F range_rule ''max'' (float_pos_inf F)) (\<lambda>max_val.
                  if float_lt F x min_val then
                    Inr (add_record_issue res record_id Errors
                      (''Value in field '' @ [CHR 0x27] @ field @ [CHR 0x27]
                         @ '' is below minimum: '' @ float_str F x @ '' < ''
                         @ float_str F min_val))
                  else if float_lt F max_val x then
                    Inr (add_record_issue res record_id Errors
                      (''Value in field '' @ [CHR 0x27] @ field @ [CHR 0x27]
                         @ '' is above maximum: '' @ float_str F x @ '' > ''
                         @ float_str F max_val))
                  else Inr res))))
              (add_record_issue res record_id Errors
                 (''Could not parse numeric value in field '' @ [CHR 0x27] @ field
                    @ [CHR 0x27] @ '': '' @ py_str v)))
         else Inr res)"

definition check_numeric_ranges ::
  "'f float_ops \<Rightarrow> validation_rules \<Rightarrow> pyrec list \<Rightarrow> results \<Rightarrow> pyerr + results" where
  "check_numeric_ranges F rules data res =
     (let numeric_ranges = (case numeric_range rules of None \<Rightarrow> [] | Some nr \<Rightarrow> nr)
      in if numeric_ranges = [] then Inr res
         else efold (\<lambda>ir. efold (check_numeric_field F ir) numeric_ranges)
                (enumerate 0 data) res)"

text \<open>
  Python iterates a \<open>set\<close> in an order of its own: it depends on the hashes of the
  members and, for strings, on the hash seed of the process.  The order is a parameter
  of the model: \<open>ids_order S xs\<close> and \<open>fields_order S xs\<close> are the order in which the
  set with the members \<open>xs\<close> is iterated.
\<close>

record set_order =
  ids_order :: "pyval list \<Rightarrow> pyval list"
  fields_order :: "string list \<Rightarrow> string list"


text \<open>
  \<open>_check_data_consistency\<close>.  \<open>duplicate_ids\<close> is the set of the identifiers that
  occur more than once, in the order the loop over it takes.
\<close>

definition record_ids :: "pyrec list \<Rightarrow> pyval list" where
  "record_ids data = map (\<lambda>r. the (map_of r ''record_id''))
                         (filter (\<lambda>r. map_of r ''record_id'' \<noteq> None) data)"

definition duplicate_ids :: "set_order \<Rightarrow> pyrec list \<Rightarrow> pyval list" where
  "duplicate_ids S data =
     ids_order S (filter (\<lambda>rid. count_list (record_ids data) rid > 1) (record_ids data))"

definition duplicate_message :: "pyval \<Rightarrow> string" where
  "duplicate_message dup_id = ''Duplicate record ID found: '' @ py_str dup_id"

text \<open>The members of the set \<open>all_fields\<close>: every key of every record.\<close>

definition all_fields :: "pyrec list \<Rightarrow> string list" where
  "all_fields data = concat (map (map fst) data)"

text \<open>
  The members of \<open>all_fields - set(record.keys())\<close>, with \<open>record_id\<close> removed.
\<close>

definition missing_fields :: "pyrec list \<Rightarrow> pyrec \<Rightarrow> string list" where
  "missing_fields data r =
     filter (\<lambda>f. f \<noteq> ''record_id'') (filter (\<lambda>f. f \<notin> set (map fst r)) (all_fields data))"

definition presence_message :: "string list \<Rightarrow> string" where
  "presence_message fs =
     ''Fields present in other records but missing in this one: '' @ join '', '' fs"

text \<open>\<open>', '.join(missing_fields)\<close> iterates the set.\<close>

definition check_presence_record ::
  "set_order \<Rightarrow> pyrec list \<Rightarrow> nat \<times> pyrec \<Rightarrow> results \<Rightarrow> results" where
  "check_presence_record S data ir res =
     (let record_id = record_id_of (fst ir) (snd ir); missing = missing_fields data (snd ir)
      in if missing \<noteq> []
         then add_record_issue res record_id Warnings
                (presence_message (fields_order S missing))
         else res)"

definition check_data_consistency :: "set_order \<Rightarrow> pyrec list \<Rightarrow> results \<Rightarrow> results" where
  "check_data_consistency S data res =
     fold (check_presence_record S data) (enumerate 0 data)
       (res\<lparr>errors := errors res @ map duplicate_message (duplicate_ids S data)\<rparr>)"

text \<open>The summary statistics of \<open>validate\<close>.\<close>

definition count_record_errors :: "(pyval \<times> issues) list \<Rightarrow> nat" where
  "count_record_errors ri = sum_list (map (\<lambda>p. length (rec_errors (snd p))) ri)"

definition count_record_warnings :: "(pyval \<times> issues) list \<Rightarrow> nat" where
  "count_record_warnings ri = sum_list (map (\<lambda>p. length (rec_warnings (snd p))) ri)"

definition summarise :: "results \<Rightarrow> results" where
  "summarise res =
     (let n_errors = length (errors res) + count_record_errors (record_issues res);
          n_warnings = length (warnings res) + count_record_warnings (record_issues res)
      in res\<lparr>stats := (stats res)\<lparr>records_with_issues := length (record_issues res),
                                  total_errors := n_errors,
                                  total_warnings := n_warnings\<rparr>,
             is_valid := (n_errors = 0)\<rparr>)"

definition initial_results :: "pyrec list \<Rightarrow> results" where
  "initial_results data =
     \<lparr>is_valid = True, errors = [], warnings = [], record_issues = [],
      stats = \<lparr>total_records = length data, records_with_issues = 0,
               total_errors = 0, total_warnings = 0\<rparr>\<rparr>"

text \<open>\<open>validate\<close>: \<open>not data\<close> holds for \<open>None\<close> and for the empty list.\<close>

definition run_checks ::
  "set_order \<Rightarrow> 'f float_ops \<Rightarrow> validation_rules \<Rightarrow> pyrec list \<Rightarrow> pyerr + results" where
  "run_checks S F rules data =
     ebind (check_field_formats rules data
              (check_required_fields rules data (initial_results data))) (\<lambda>r2.
     ebind (check_date_ranges rules data r2) (\<lambda>r3.
     ebind (check_numeric_ranges F rules data r3) (\<lambda>r4.
     Inr (check_data_consistency S data r4))))"

fun validate ::
  "set_order \<Rightarrow> 'f float_ops \<Rightarrow> validation_rules \<Rightarrow> dataset \<Rightarrow> pyerr + verdict" where
  "validate S F rules NoData = Inr (EarlyVerdict False [''No data provided for validation''])"
| "validate S F rules (Records data) =
     (if data = [] then Inr (EarlyVerdict False [''No data provided for validation''])
      else ebind (run_checks S F rules data) (\<lambda>r. Inr (FullVerdict (summarise r))))"



section \<open>Instances for the examples\<close>

text \<open>
  An instance of the float operations for evaluating examples.  It reads integers and
  strings of decimal digits, where it agrees with CPython (\<open>float("25")\<close> is
  \<open>25.0\<close>); it is used on no other input.
\<close>

datatype xfloat = NegInf | Whole int | PosInf

fun xfloat_lt :: "xfloat \<Rightarrow> xfloat \<Rightarrow> bool" where
  "xfloat_lt NegInf b = (b \<noteq> NegInf)"
| "xfloat_lt (Whole a) NegInf = False"
| "xfloat_lt (Whole a) (Whole b) = (a < b)"
| "xfloat_lt (Whole a) PosInf = True"
| "xfloat_lt PosInf b = False"

fun xfloat_str :: "xfloat \<Rightarrow> string" where
  "xfloat_str NegInf = ''-inf''"
| "xfloat_str (Whole n) = py_str (PInt n) @ ''.0''"
| "xfloat_str PosInf = ''inf''"

fun xfloat_of :: "pyval \<Rightarrow> pyerr + xfloat" where
  "xfloat_of PNone = Inl TypeError"
| "xfloat_of (PInt n) = Inr (Whole n)"
| "xfloat_of (PStr s) =
     (if s \<noteq> [] \<and> list_all is_digit s
      then Inr (Whole (int (fold (\<lambda>c n. 10 * n + digit_val c) s 0)))
      else Inl ValueError)"

definition whole_floats :: "xfloat float_ops" where
  "whole_floats =
     \<lparr>py_float = xfloat_of, float_lt = xfloat_lt, float_str = xfloat_str,
      float_neg_inf = NegInf, float_pos_inf = PosInf\<rparr>"

text \<open>An order of iteration: the members as they first came in.\<close>

definition first_seen :: set_order where
  "first_seen = \<lparr>ids_order = remdups, fields_order = remdups\<rparr>"

definition no_rules :: validation_rules where
  "no_rules = \<lparr>required_fields = None, field_formats = None, date_range = None,
               numeric_range = None\<rparr>"

section \<open>Objects, logging\<close>

text \<open>
  Where a claim depends on which dictionary object is written, records live in a store:
  an address holds a dictionary, \<open>next_addr\<close> is the first address not yet used, and
  creating an object takes that address.
\<close>

type_synonym addr = nat

record 'o heap =
  objs :: "addr \<Rightarrow> 'o"
  next_addr :: addr

definition alloc :: "'o \<Rightarrow> 'o heap \<Rightarrow> addr \<times> 'o heap" where
  "alloc v h = (next_addr h, \<lparr>objs = (objs h)(next_addr h := v), next_addr = Suc (next_addr h)\<rparr>)"

text \<open>\<open>d[k] = v\<close> on the dictionary at address \<open>a\<close>.\<close>

definition setitem :: "(string \<times> 'v) list heap \<Rightarrow> addr \<Rightarrow> string \<Rightarrow> 'v \<Rightarrow> (string \<times> 'v) list heap" where
  "setitem h a k v = h\<lparr>objs := (objs h)(a := AList.update k v (objs h a))\<rparr>"

text \<open>
  A call of the logger is an entry of the returned log; an entry whose text ends in an
  exception's own message keeps the exception instead of that message.
\<close>

datatype level = DEBUG | INFO | WARNING | ERROR

datatype log_entry = Log level string | LogExc level string pyerr

section \<open>The security handler (security.py)\<close>

text \<open>
  \<open>Fernet\<close> is a library: the instance a handler holds is a parameter.  Encryption
  draws an initialisation vector and the time, so \<open>encrypt\<close> takes the number of the
  draw as well; a token that does not verify makes \<open>decrypt\<close> raise.
\<close>

record cipher =
  encrypt :: "nat \<Rightarrow> string \<Rightarrow> string"
  decrypt :: "string \<Rightarrow> pyerr + string"

record security_handler =
  secure_mode :: bool
  phi_fields :: "string list"
  cipher :: "cipher option"

text \<open>\<open>SecurityHandler(secure_mode, phi_fields)\<close>, with the cipher it generates.\<close>

definition new_security_handler ::
  "cipher \<Rightarrow> bool \<Rightarrow> string list option \<Rightarrow> security_handler \<times> log_entry list" where
  "new_security_handler fernet mode given =
     (\<lparr>secure_mode = mode,
       phi_fields = (case given of None \<Rightarrow> [] | Some fs \<Rightarrow> fs),
       cipher = (if mode then Some fernet else None)\<rparr>,
      [Log INFO (if mode then ''Initialized security handler in secure mode with encryption''
                 else ''Initialized security handler in standard mode'')])"

text \<open>
  \<open>_detect_phi_fields\<close>: each pattern is \<open>(?i)(w1|w2|...)\<close>, so \<open>re.search\<close> asks
  whether one of its words occurs in the field name, ignoring case.
\<close>

definition lower_char :: "char \<Rightarrow> char" where
  "lower_char c =
     (if 65 \<le> (of_char c :: nat) \<and> (of_char c :: nat) \<le> 90
      then char_of ((of_char c :: nat) + 32) else c)"

fun starts_with :: "string \<Rightarrow> string \<Rightarrow> bool" where
  "starts_with [] s = True"
| "starts_with (p # ps) [] = False"
| "starts_with (p # ps) (c # cs) = (p = c \<and> starts_with ps cs)"

fun contains :: "string \<Rightarrow> string \<Rightarrow> bool" where
  "contains p [] = (p = [])"
| "contains p (c # cs) = (starts_with p (c # cs) \<or> contains p cs)"

definition phi_field_patterns :: "string list list" where
  "phi_field_patterns =
     [[''name'', ''first'', ''last'', ''middle'', ''initial'', ''full''],
      [''ssn'', ''social'', ''security''],
      [''dob'', ''birth'', ''birthday''],
      [''address'', ''street'', ''city'', ''state'', ''zip'', ''postal''],
      [''email'', ''e-mail''],
      [''phone'', ''cell'', ''mobile'', ''fax''],
      [''mrn'', ''medical'', ''record'', ''patient'', ''id''],
      [''license'', ''driver'']]"

definition re_search :: "string list \<Rightarrow> string \<Rightarrow> bool" where
  "re_search pattern field = list_ex (\<lambda>w. contains w (map lower_char field)) pattern"

definition detect_phi_fields :: "pyrec list \<Rightarrow> string list" where
  "detect_phi_fields data =
     (case data of
        [] \<Rightarrow> []
      | sample_record # _ \<Rightarrow>
          filter (\<lambda>field. list_ex (\<lambda>pattern. re_search pattern field) phi_field_patterns)
            (map fst sample_record))"

text \<open>
  \<open>_redact_phi\<close>.  \<open>re.match(r'^[0-9-()]+$', value)\<close> accepts a non-empty run of
  digits, hyphens and parentheses, with one newline allowed after it.
\<close>

definition stars :: "nat \<Rightarrow> string" where
  "stars n = replicate n CHR ''*''"

definition is_phone_char :: "char \<Rightarrow> bool" where
  "is_phone_char c = (is_digit c \<or> c \<in> set ''-()'')"

definition phone_shaped :: "string \<Rightarrow> bool" where
  "phone_shaped v =
     (v \<noteq> [] \<and>
      (list_all is_phone_char v \<or>
       (last v = CHR 0x0A \<and> butlast v \<noteq> [] \<and> list_all is_phone_char (butlast v))))"

definition email_shaped :: "string \<Rightarrow> bool" where
  "email_shaped v = (CHR ''@'' \<in> set v \<and> CHR ''.'' \<in> set (split_on CHR ''@'' v ! 1))"

definition redact_phi :: "string \<Rightarrow> string" where
  "redact_phi v =
     (if v = [] then v
      else if email_shaped v then
        (let parts = split_on CHR ''@'' v;
             username = (if length (parts ! 0) > 2
                         then [hd (parts ! 0)] @ stars (length (parts ! 0) - 2)
                              @ [last (parts ! 0)]
                         else stars (length (parts ! 0)));
             domain = parts ! 1
         in username @ ''@'' @ domain)
      else if phone_shaped v then
        (let clean_digits = filter is_digit v
         in if length clean_digits > 4
            then take 2 clean_digits @ stars (length clean_digits - 4)
                 @ drop (length clean_digits - 2) clean_digits
            else stars (length clean_digits))
      else if length v > 6 then take 2 v @ stars (length v - 4) @ drop (length v - 2) v
      else stars (length v))"

text \<open>
  \<open>_secure_phi_data\<close>.  The state is the store and the number of encryptions drawn so
  far.  \<open>secure_field\<close> is the body of the loop over \<open>phi_fields\<close>, writing to the copy
  at address \<open>b\<close>; \<open>secure_record\<close> copies the record at \<open>a\<close> and runs that loop.
\<close>

definition secure_field ::
  "cipher option \<Rightarrow> addr \<Rightarrow> string \<Rightarrow> pyrec heap \<times> nat \<Rightarrow> pyrec heap \<times> nat" where
  "secure_field ciph b field hn =
     (let h = fst hn; n = snd hn in
      if present_truthy (objs h b) field then
        (case ciph of
           Some c \<Rightarrow>
             (let original_value = py_str (the (map_of (objs h b) field));
                  encrypted_value = encrypt c n original_value;
                  h1 = setitem h b (field @ ''_encrypted'') (PStr encrypted_value)
              in (setitem h1 b field (PStr (redact_phi original_value)), Suc n))
         | None \<Rightarrow>
             (setitem h b field (PStr (redact_phi (py_str (the (map_of (objs h b) field))))),
              n))
      else (h, n))"

definition secure_record ::
  "cipher option \<Rightarrow> string list \<Rightarrow> addr \<Rightarrow> pyrec heap \<times> nat \<Rightarrow> addr \<times> (pyrec heap \<times> nat)" where
  "secure_record ciph names a hn =
     (let copy = alloc (objs (fst hn) a) (fst hn)
      in (fst copy, fold (secure_field ciph (fst copy)) names (snd copy, snd hn)))"

fun secure_records ::
  "cipher option \<Rightarrow> string list \<Rightarrow> addr list \<Rightarrow> pyrec heap \<times> nat
     \<Rightarrow> addr list \<times> (pyrec heap \<times> nat)" where
  "secure_records ciph names [] hn = ([], hn)"
| "secure_records ciph names (a # as) hn =
     (let one = secure_record ciph names a hn;
          more = secure_records ciph names as (snd one)
      in (fst one # fst more, snd more))"

definition detection_entry :: "string list \<Rightarrow> log_entry" where
  "detection_entry fs =
     Log INFO (''Automatically detected potential PHI fields: '' @ join '', '' fs)"

definition secure_phi_data ::
  "security_handler \<Rightarrow> addr list \<Rightarrow> pyrec heap \<times> nat
     \<Rightarrow> addr list \<times> security_handler \<times> (pyrec heap \<times> nat) \<times> log_entry list" where
  "secure_phi_data sh data hn =
     (let detected = detect_phi_fields (map (objs (fst hn)) data);
          sh1 = (if phi_fields sh = [] then sh\<lparr>phi_fields := detected\<rparr> else sh);
          log1 = (if phi_fields sh = [] then [detection_entry detected] else []);
          secured = secure_records (cipher sh1) (phi_fields sh1) data hn
      in (fst secured, sh1, snd secured,
          log1 @ [Log INFO (''Applied security measures to ''
                    @ str_nat (length (phi_fields sh1)) @ '' PHI fields'')]))"

text \<open>
  The end of \<open>load_and_secure_data\<close>, once the file is read: the records are secured
  in secure mode only.
\<close>

definition secure_loaded ::
  "security_handler \<Rightarrow> addr list \<Rightarrow> pyrec heap \<times> nat
     \<Rightarrow> addr list \<times> security_handler \<times> (pyrec heap \<times> nat) \<times> log_entry list" where
  "secure_loaded sh data hn =
     (if secure_mode sh then secure_phi_data sh data hn else (data, sh, hn, []))"

text \<open>\<open>decrypt_field\<close>: without a cipher it raises \<open>ValueError\<close>.\<close>

definition decrypt_field :: "security_handler \<Rightarrow> string \<Rightarrow> pyerr + string" where
  "decrypt_field sh encrypted_value =
     (case cipher sh of None \<Rightarrow> Inl ValueError | Some c \<Rightarrow> decrypt c encrypted_value)"

text \<open>Calling \<open>_secure_phi_data\<close> on one handler for several record sets in turn.\<close>

fun secure_calls ::
  "security_handler \<Rightarrow> addr list list \<Rightarrow> pyrec heap \<times> nat
     \<Rightarrow> security_handler \<times> (pyrec heap \<times> nat) \<times> log_entry list" where
  "secure_calls sh [] hn = (sh, hn, [])"
| "secure_calls sh (data # rest) hn =
     (let r = secure_phi_data sh data hn;
          more = secure_calls (fst (snd r)) rest (fst (snd (snd r)))
      in (fst more, fst (snd more), snd (snd (snd r)) @ snd (snd more)))"

text \<open>
  The loop over \<open>phi_fields\<close> as a function of the copied dictionary alone: what
  \<open>secure_field\<close> leaves at the copy.
\<close>

definition secure_field_val :: "cipher option \<Rightarrow> string \<Rightarrow> pyrec \<times> nat \<Rightarrow> pyrec \<times> nat" where
  "secure_field_val ciph field rn =
     (let r = fst rn; n = snd rn in
      if present_truthy r field then
        (case ciph of
           Some c \<Rightarrow>
             (AList.update field (PStr (redact_phi (py_str (the (map_of r field)))))
                (AList.update (field @ ''_encrypted'')
                   (PStr (encrypt c n (py_str (the (map_of r field))))) r),
              Suc n)
         | None \<Rightarrow>
             (AList.update field (PStr (redact_phi (py_str (the (map_of r field))))) r, n))
      else (r, n))"

text \<open>The redaction as the specification words it, to compare with \<open>redact_phi\<close>.\<close>

definition spec_redact :: "string \<Rightarrow> string" where
  "spec_redact v =
     (if v = [] then v
      else if email_shaped v then
        [hd (split_on CHR ''@'' v ! 0)] @ stars (length (split_on CHR ''@'' v ! 0) - 2)
          @ [last (split_on CHR ''@'' v ! 0)] @ ''@'' @ split_on CHR ''@'' v ! 1
      else if phone_shaped v \<and> length v > 4 then
        take 2 (filter is_digit v) @ stars (length (filter is_digit v) - 4)
          @ drop (length (filter is_digit v) - 2) (filter is_digit v)
      else if \<not> phone_shaped v \<and> length v > 6 then
        take 2 v @ stars (length v - 4) @ drop (length v - 2) v
      else stars (length v))"

text \<open>
  A cipher for evaluating examples: the token is the plaintext behind a tag that
  encodes the draw; a string without the tag does not decrypt.
\<close>

definition tag_cipher :: cipher where
  "tag_cipher =
     \<lparr>encrypt = (\<lambda>n s. replicate n CHR ''+'' @ CHR '':'' # s),
      decrypt = (\<lambda>t. case dropWhile (\<lambda>c. c = CHR ''+'') t of
                        [] \<Rightarrow> Inl InvalidToken
                      | c # r \<Rightarrow> if c = CHR '':'' then Inr r else Inl InvalidToken)\<rparr>"

definition empty_heap :: "(string \<times> 'v) list heap" where
  "empty_heap = \<lparr>objs = (\<lambda>a. []), next_addr = 0\<rparr>"

text \<open>Stores for the examples: one record at address 0; two records at 0 and 1.\<close>

definition ssn_store :: "pyrec heap" where
  "ssn_store = snd (alloc [(''ssn'', PStr ''123-45-6789'')] empty_heap)"

definition two_record_store :: "pyrec heap" where
  "two_record_store =
     snd (alloc [(''name'', PStr ''Bob'')] (snd (alloc [(''age'', PStr ''30'')] empty_heap)))"

section \<open>The mapper (mapper.py)\<close>

text \<open>
  A mapped record holds scalars and, for a checkbox field, a dictionary from option code
  to \<open>'1'\<close> or \<open>'0'\<close>.  The store of the mapper holds such dictionaries; a source row
  (a row of the data frame) holds scalar cells.
\<close>

datatype tval = Scalar pyval | Checks "(string \<times> string) list"

type_synonym trec = "(string \<times> tval) list"

datatype source_data = RecordList "addr list" | DataFrame "pyrec list"

record field_map =
  source_field :: "string option"
  target_field :: string
  field_type :: "string option"
  date_format :: "string option"
  options :: "(string \<times> pyval) list option"
  formula :: "string option"

record mapping_template =
  mapping_fields :: "field_map list"
  source_type :: string
  record_id_field :: string

text \<open>
  What the mapper takes from libraries and the platform, as parameters:
  \<open>datetime.strptime\<close> for a format other than the three built-in candidates,
  \<open>str(eval(formula))\<close>, the rows \<open>pd.DataFrame(source_data).iterrows()\<close> yields
  for a list of dictionaries, and what \<open>strftime\<close> prints for \<open>%Y\<close> when the year
  is below 1000 (CPython hands \<open>%Y\<close> to the C library, and C libraries differ there).
  They read their arguments and return a value.
\<close>

record mapper_env =
  strptime_other :: "string \<Rightarrow> string \<Rightarrow> pyerr + date"
  py_eval :: "string \<Rightarrow> pyerr + string"
  iterrows :: "trec list \<Rightarrow> pyrec list"
  year_below_1000 :: "nat \<Rightarrow> string"

text \<open>\<open>pd.isna\<close> on a scalar cell.\<close>

fun isna :: "pyval \<Rightarrow> bool" where
  "isna PNone = True"
| "isna v = False"

text \<open>\<open>%b\<close>: the month abbreviations of the C locale, matched ignoring case.\<close>

definition month_abbrs :: "string list" where
  "month_abbrs = [''jan'', ''feb'', ''mar'', ''apr'', ''may'', ''jun'',
                  ''jul'', ''aug'', ''sep'', ''oct'', ''nov'', ''dec'']"

definition rx_b :: "string \<Rightarrow> (nat \<times> string) list" where
  "rx_b s = concat (map (\<lambda>p. if map lower_char (take 3 s) = snd p then [(fst p, drop 3 s)] else [])
                        (enumerate 1 month_abbrs))"

definition match_mdy :: "string \<Rightarrow> (date \<times> string) list" where
  "match_mdy s =
     [((y, m, d), r5).
        (m, r1) \<leftarrow> rx_m s, r2 \<leftarrow> rx_lit CHR ''/'' r1, (d, r3) \<leftarrow> rx_d r2,
        r4 \<leftarrow> rx_lit CHR ''/'' r3, (y, r5) \<leftarrow> rx_Y r4]"

definition match_dby :: "string \<Rightarrow> (date \<times> string) list" where
  "match_dby s =
     [((y, m, d), r5).
        (d, r1) \<leftarrow> rx_d s, r2 \<leftarrow> rx_lit CHR ''-'' r1, (m, r3) \<leftarrow> rx_b r2,
        r4 \<leftarrow> rx_lit CHR ''-'' r3, (y, r5) \<leftarrow> rx_Y r4]"

text \<open>\<open>datetime.strptime(s, '%m/%d/%Y')\<close> and \<open>datetime.strptime(s, '%d-%b-%Y')\<close>\<close>

definition strptime_us :: "string \<Rightarrow> pyerr + date" where
  "strptime_us s = finish_strptime (match_mdy s)"

definition strptime_dby :: "string \<Rightarrow> pyerr + date" where
  "strptime_dby s = finish_strptime (match_dby s)"

definition strptime :: "mapper_env \<Rightarrow> string \<Rightarrow> string \<Rightarrow> pyerr + date" where
  "strptime E s fmt =
     (if fmt = ''%Y-%m-%d'' then strptime_iso s
      else if fmt = ''%m/%d/%Y'' then strptime_us s
      else if fmt = ''%d-%b-%Y'' then strptime_dby s
      else strptime_other E s fmt)"

text \<open>
  \<open>dt.strftime('%Y-%m-%d')\<close>: month and day on two digits, a year from 1000 on its
  four digits (a \<open>datetime\<close> has a year from 1 to 9999), an earlier year as the
  platform prints it.
\<close>

definition strftime_ymd :: "mapper_env \<Rightarrow> date \<Rightarrow> string" where
  "strftime_ymd E dt =
     (case dt of (y, m, d) \<Rightarrow>
        (if 1000 \<le> y
         then [digit_char (y div 1000), digit_char (y div 100), digit_char (y div 10),
               digit_char y]
         else year_below_1000 E y)
        @ ''-'' @ [digit_char (m div 10), digit_char m]
        @ ''-'' @ [digit_char (d div 10), digit_char d])"

text \<open>\<open>try: body except Exception as e: handler\<close>: every exception is caught.\<close>

definition except_Exception :: "pyerr + 'a \<Rightarrow> (pyerr \<Rightarrow> 'a) \<Rightarrow> pyerr + 'a" where
  "except_Exception body handler = (case body of Inl e \<Rightarrow> Inr (handler e) | Inr x \<Rightarrow> Inr x)"

text \<open>
  The \<open>for fmt in [...]\<close> loop of \<open>_format_date\<close> with its \<open>else\<close>: \<open>None\<close> when no
  format parsed, the date of the first format that parsed, or the exception that is
  not a \<open>ValueError\<close>.
\<close>

fun try_formats :: "mapper_env \<Rightarrow> string \<Rightarrow> string list \<Rightarrow> (pyerr + date) option" where
  "try_formats E s [] = None"
| "try_formats E s (fmt # fmts) =
     (case strptime E s fmt of
        Inr dt \<Rightarrow> Some (Inr dt)
      | Inl ValueError \<Rightarrow> try_formats E s fmts
      | Inl e \<Rightarrow> Some (Inl e))"

definition candidate_formats :: "string list" where
  "candidate_formats = [''%Y-%m-%d'', ''%m/%d/%Y'', ''%d-%b-%Y'']"

text \<open>\<open>_format_date\<close>\<close>

definition format_date ::
  "mapper_env \<Rightarrow> pyval \<Rightarrow> string option \<Rightarrow> pyerr + (pyval \<times> log_entry list)" where
  "format_date E v fmt =
     (if isna v \<or> v = PStr [] then Inr (PStr [], [])
      else
        except_Exception
          (if fmt \<noteq> None \<and> fmt \<noteq> Some [] then
             ebind (strptime E (py_str v) (the fmt))
               (\<lambda>dt. Inr (PStr (strftime_ymd E dt), []))
           else
             (case try_formats E (py_str v) candidate_formats of
                None \<Rightarrow> Inr (v, [Log WARNING (''Could not parse date value: '' @ py_str v)])
              | Some r \<Rightarrow> ebind r (\<lambda>dt. Inr (PStr (strftime_ymd E dt), []))))
          (\<lambda>e. (v, [LogExc WARNING (''Error formatting date '' @ py_str v @ '': '') e])))"

text \<open>\<open>_format_checkbox\<close>; \<open>str.strip()\<close> removes the ASCII whitespace.\<close>

definition is_space :: "char \<Rightarrow> bool" where
  "is_space c = ((of_char c :: nat) \<in> {9, 10, 11, 12, 13, 28, 29, 30, 31, 32})"

definition strip :: "string \<Rightarrow> string" where
  "strip s = rev (dropWhile is_space (rev (dropWhile is_space s)))"

definition format_checkbox :: "pyval \<Rightarrow> (string \<times> pyval) list \<Rightarrow> (string \<times> string) list" where
  "format_checkbox v opts =
     (if isna v then []
      else
        (let vals = (case v of PStr s \<Rightarrow> map (\<lambda>x. PStr (strip x)) (split_on CHR '','' s)
                     | _ \<Rightarrow> [v])
         in fold (\<lambda>opt result.
                    AList.update (fst opt)
                      (if snd opt \<in> set vals \<or> PStr (fst opt) \<in> set vals then ''1'' else ''0'')
                      result)
              opts []))"

text \<open>
  \<open>_format_radio\<close>: the loop over \<open>options.items()\<close> returns at the first option whose
  label or code equals the value.
\<close>

fun radio_lookup :: "pyval \<Rightarrow> (string \<times> pyval) list \<Rightarrow> string option" where
  "radio_lookup v [] = None"
| "radio_lookup v (opt # rest) =
     (if snd opt = v \<or> PStr (fst opt) = v then Some (fst opt) else radio_lookup v rest)"

definition format_radio :: "pyval \<Rightarrow> (string \<times> pyval) list \<Rightarrow> pyval \<times> log_entry list" where
  "format_radio v opts =
     (if isna v \<or> v = PStr [] then (PStr [], [])
      else (case radio_lookup v opts of
              Some code \<Rightarrow> (PStr code, [])
            | None \<Rightarrow>
                (PStr [],
                 [Log WARNING (''Radio value '' @ [CHR 0x27] @ py_str v @ [CHR 0x27]
                                @ '' not found in options'')])))"

definition format_dropdown :: "pyval \<Rightarrow> (string \<times> pyval) list \<Rightarrow> pyval \<times> log_entry list" where
  "format_dropdown v opts = format_radio v opts"

text \<open>\<open>s.replace(old, new)\<close> for a non-empty \<open>old\<close>.\<close>

function str_replace :: "string \<Rightarrow> string \<Rightarrow> string \<Rightarrow> string" where
  "str_replace old new [] = []"
| "str_replace old new (c # cs) =
     (if old \<noteq> [] \<and> starts_with old (c # cs)
      then new @ str_replace old new (drop (length old - 1) cs)
      else c # str_replace old new cs)"
  by pat_completeness auto
termination
  by (relation "measure (\<lambda>p. length (snd (snd p)))") auto

text \<open>\<open>_apply_calculation\<close>\<close>

definition substitute_fields :: "pyrec \<Rightarrow> string \<Rightarrow> string" where
  "substitute_fields row f =
     fold (\<lambda>cell g. if contains (''{'' @ fst cell @ ''}'') g
                     then str_replace (''{'' @ fst cell @ ''}'') (py_str (snd cell)) g
                     else g)
       row f"

definition apply_calculation ::
  "mapper_env \<Rightarrow> pyrec \<Rightarrow> string option \<Rightarrow> pyval \<times> log_entry list" where
  "apply_calculation E row f =
     (if f = None \<or> f = Some [] then (PStr [], [])
      else (case py_eval E (substitute_fields row (the f)) of
              Inr s \<Rightarrow> (PStr s, [])
            | Inl e \<Rightarrow> (PStr [], [LogExc WARNING ''Error in calculation: '' e])))"

text \<open>
  \<open>_map_field\<close>.  \<open>transform\<close> is the chain on \<open>field_type\<close>; \<open>map_field\<close> writes the
  result into the target record at address \<open>b\<close>.  The state is the store and the log;
  the first component of a result is the exception raised, if any.
\<close>

definition transform ::
  "mapper_env \<Rightarrow> field_map \<Rightarrow> pyrec \<Rightarrow> pyval \<Rightarrow> pyerr + (tval \<times> log_entry list)" where
  "transform E fm row v =
     (let ft = (case field_type fm of None \<Rightarrow> ''text'' | Some t \<Rightarrow> t);
          opts = (case options fm of None \<Rightarrow> [] | Some os \<Rightarrow> os)
      in if ft = ''date'' then
           ebind (format_date E v (date_format fm)) (\<lambda>r. Inr (Scalar (fst r), snd r))
         else if ft = ''checkbox'' then Inr (Checks (format_checkbox v opts), [])
         else if ft = ''radio'' then
           Inr (Scalar (fst (format_radio v opts)), snd (format_radio v opts))
         else if ft = ''dropdown'' then
           Inr (Scalar (fst (format_dropdown v opts)), snd (format_dropdown v opts))
         else if ft = ''calculated'' then
           Inr (Scalar (fst (apply_calculation E row (formula fm))),
                snd (apply_calculation E row (formula fm)))
         else Inr (Scalar v, []))"

type_synonym mstate = "trec heap \<times> log_entry list"

definition skip_entry :: "string option \<Rightarrow> log_entry" where
  "skip_entry sf =
     Log DEBUG (''Source field '' @ [CHR 0x27] @ (case sf of None \<Rightarrow> ''None'' | Some s \<Rightarrow> s)
                 @ [CHR 0x27] @ '' not found, skipping'')"

definition map_field ::
  "mapper_env \<Rightarrow> field_map \<Rightarrow> pyrec \<Rightarrow> addr \<Rightarrow> mstate \<Rightarrow> pyerr option \<times> mstate" where
  "map_field E fm row b st =
     (case (case source_field fm of None \<Rightarrow> None | Some sf \<Rightarrow> map_of row sf) of
        None \<Rightarrow> (None, (fst st, snd st @ [skip_entry (source_field fm)]))
      | Some v \<Rightarrow>
          (case transform E fm row v of
             Inl e \<Rightarrow> (Some e, st)
           | Inr r \<Rightarrow>
               (None, (setitem (fst st) b (target_field fm) (fst r), snd st @ snd r))))"

fun map_fields ::
  "mapper_env \<Rightarrow> field_map list \<Rightarrow> pyrec \<Rightarrow> addr \<Rightarrow> mstate \<Rightarrow> pyerr option \<times> mstate" where
  "map_fields E [] row b st = (None, st)"
| "map_fields E (fm # fms) row b st =
     (case map_field E fm row b st of
        (Some e, st') \<Rightarrow> (Some e, st')
      | (None, st') \<Rightarrow> map_fields E fms row b st')"

text \<open>
  The loop of \<open>map_data\<close> over the rows: \<open>record = {}\<close> takes a new address; a row
  without the identifier column is skipped with a warning.
\<close>

fun map_rows ::
  "mapper_env \<Rightarrow> mapping_template \<Rightarrow> pyrec list \<Rightarrow> addr list \<Rightarrow> mstate
     \<Rightarrow> (pyerr + addr list) \<times> mstate" where
  "map_rows E M [] redcap_data st = (Inr redcap_data, st)"
| "map_rows E M (row # rows) redcap_data st =
     (let new = alloc [] (fst st) in
      case map_of row (record_id_field M) of
        None \<Rightarrow>
          map_rows E M rows redcap_data
            (snd new,
             snd st @ [Log WARNING (''Record ID field '' @ [CHR 0x27] @ record_id_field M
                                     @ [CHR 0x27] @ '' not found in source data'')])
      | Some idv \<Rightarrow>
          (case map_fields E (mapping_fields M) row (fst new)
                  (setitem (snd new) (fst new) ''record_id'' (Scalar (PStr (py_str idv))),
                   snd st) of
             (Some e, st') \<Rightarrow> (Inl e, st')
           | (None, st') \<Rightarrow> map_rows E M rows (redcap_data @ [fst new]) st'))"

text \<open>\<open>map_data\<close>: the exception handler logs and raises again.\<close>

definition map_data ::
  "mapper_env \<Rightarrow> mapping_template \<Rightarrow> source_data \<Rightarrow> trec heap
     \<Rightarrow> (pyerr + addr list) \<times> mstate" where
  "map_data E M src h =
     (let started = [Log INFO ''Starting data mapping process''];
          frame = (case src of
                     DataFrame rows \<Rightarrow> Inr rows
                   | RecordList as \<Rightarrow>
                       if source_type M = ''csv'' then Inr (iterrows E (map (objs h) as))
                       else Inl ValueError)
      in case frame of
           Inl e \<Rightarrow> (Inl e, (h, started @ [LogExc ERROR ''Error during data mapping: '' e]))
         | Inr rows \<Rightarrow>
             (case map_rows E M rows [] (h, started) of
                (Inl e, st) \<Rightarrow>
                  (Inl e, (fst st, snd st @ [LogExc ERROR ''Error during data mapping: '' e]))
              | (Inr redcap_data, st) \<Rightarrow>
                  (Inr redcap_data,
                   (fst st,
                    snd st @ [Log INFO (''Mapped '' @ str_nat (length redcap_data)
                                         @ '' records successfully'')]))))"


text \<open>
  An instance of the mapper's parameters for evaluating examples: no other date
  format parses, no formula evaluates, a row is the record's scalar cells, and a year
  below 1000 is printed without leading zeros, as glibc prints it.
\<close>

definition plain_env :: mapper_env where
  "plain_env =
     \<lparr>strptime_other = (\<lambda>s f. Inl ValueError),
      py_eval = (\<lambda>s. Inl OtherError),
      iterrows = map (concat \<circ> map (\<lambda>cell. case snd cell of Scalar x \<Rightarrow> [(fst cell, x)]
                                                  | Checks cs \<Rightarrow> [])),
      year_below_1000 = str_nat\<rparr>"

text \<open>The shape \<open>YYYY-MM-DD\<close>: ten characters, digits around two hyphens.\<close>

definition iso_shaped :: "string \<Rightarrow> bool" where
  "iso_shaped s =
     (length s = 10 \<and> s ! 4 = CHR ''-'' \<and> s ! 7 = CHR ''-''
      \<and> list_all (\<lambda>i. is_digit (s ! i)) [0, 1, 2, 3, 5, 6, 8, 9])"

text \<open>A mapping template and a store with one source record, for the examples.\<close>

definition dob_template :: mapping_template where
  "dob_template =
     \<lparr>mapping_fields =
        [\<lparr>source_field = Some ''dob'', target_field = ''birth'', field_type = Some ''date'',
          date_format = None, options = None, formula = None\<rparr>],
      source_type = ''csv'', record_id_field = ''id''\<rparr>"

definition dob_store :: "trec heap" where
  "dob_store =
     snd (alloc [(''id'', Scalar (PStr ''7'')), (''dob'', Scalar (PStr ''03/15/2023''))]
            empty_heap)"

section \<open>Properties of the validator\<close>














lemma count_record_errors_zero:
  "count_record_errors ri = 0 \<longleftrightarrow> (\<forall>p \<in> set ri. rec_errors (snd p) = [])"
  by (induction ri) (auto simp: count_record_errors_def)

lemma is_valid_summarise:
  "is_valid (summarise r) \<longleftrightarrow>
     errors r = [] \<and> (\<forall>p \<in> set (record_issues r). rec_errors (snd p) = [])"
  by (simp add: summarise_def Let_def count_record_errors_zero)

lemma errors_summarise: "errors (summarise r) = errors r"
  by (simp add: summarise_def Let_def)

lemma record_issues_summarise: "record_issues (summarise r) = record_issues r"
  by (simp add: summarise_def Let_def)

section \<open>The claims about the validator\<close>

text \<open>
  C1.  Whenever \<open>validate\<close> returns a verdict, its \<open>is_valid\<close> flag is true exactly
  when the verdict has no global error and no record has an error, that is when the
  total error count is zero; no warning enters.
\<close>

theorem is_valid_iff_no_errors:
  assumes "validate S F rules ds = Inr v"
  shows "verdict_is_valid v \<longleftrightarrow>
           verdict_errors v = []
           \<and> (\<forall>p \<in> set (verdict_record_issues v). rec_errors (snd p) = [])"
proof (cases ds)
  case NoData
  with assms show ?thesis by auto
next
  case (Records data)
  show ?thesis
  proof (cases "data = []")
    case True
    with assms Records show ?thesis by auto
  next
    case False
    with assms Records obtain r where "v = FullVerdict (summarise r)"
      by (auto simp: ebind_def split: sum.splits)
    then show ?thesis
      by (simp add: is_valid_summarise errors_summarise record_issues_summarise)
  qed
qed

theorem is_valid_iff_no_errors_witness:
  "validate first_seen whole_floats (no_rules\<lparr>required_fields := Some [''name'']\<rparr>)
     (Records [[(''record_id'', PStr ''1''), (''name'', PStr ''x'')],
               [(''record_id'', PStr ''2'')]])
   = Inr (FullVerdict
       \<lparr>is_valid = False, errors = [], warnings = [],
        record_issues =
          [(PStr ''2'',
            \<lparr>rec_errors = [''Missing required fields: name''],
             rec_warnings =
               [''Fields present in other records but missing in this one: name'']\<rparr>)],
        stats = \<lparr>total_records = 2, records_with_issues = 1, total_errors = 1,
                 total_warnings = 1\<rparr>\<rparr>)
   \<and> validate first_seen whole_floats no_rules
     (Records [[(''record_id'', PStr ''1''), (''name'', PStr ''x'')],
               [(''record_id'', PStr ''2'')]])
   = Inr (FullVerdict
       \<lparr>is_valid = True, errors = [], warnings = [],
        record_issues =
          [(PStr ''2'',
            \<lparr>rec_errors = [],
             rec_warnings =
               [''Fields present in other records but missing in this one: name'']\<rparr>)],
        stats = \<lparr>total_records = 2, records_with_issues = 1, total_errors = 0,
                 total_warnings = 1\<rparr>\<rparr>)"
proof -
  have h1: "validate first_seen whole_floats (no_rules\<lparr>required_fields := Some [''name'']\<rparr>)
     (Records [[(''record_id'', PStr ''1''), (''name'', PStr ''x'')],
               [(''record_id'', PStr ''2'')]])
   = Inr (FullVerdict
       \<lparr>is_valid = False, errors = [], warnings = [],
        record_issues =
          [(PStr ''2'',
            \<lparr>rec_errors = [''Missing required fields: name''],
             rec_warnings =
               [''Fields present in other records but missing in this one: name'']\<rparr>)],
        stats = \<lparr>total_records = 2, records_with_issues = 1, total_errors = 1,
                 total_warnings = 1\<rparr>\<rparr>)"
    by code_simp
  have h2: "validate first_seen whole_floats no_rules
     (Records [[(''record_id'', PStr ''1''), (''name'', PStr ''x'')],
               [(''record_id'', PStr ''2'')]])
   = Inr (FullVerdict
       \<lparr>is_valid = True, errors = [], warnings = [],
        record_issues =
          [(PStr ''2'',
            \<lparr>rec_errors = [],
             rec_warnings =
               [''Fields present in other records but missing in this one: name'']\<rparr>)],
        stats = \<lparr>total_records = 2, records_with_issues = 1, total_errors = 0,
                 total_warnings = 1\<rparr>\<rparr>)"
    by code_simp
  from is_valid_iff_no_errors [OF h1] is_valid_iff_no_errors [OF h2] h1 h2
  show ?thesis by simp
qed

text \<open>
  C10.  For \<open>None\<close> and for the empty list \<open>validate\<close> returns the two-key
  dictionary with \<open>is_valid\<close> false and the single error "No data provided for
  validation"; every verdict returned for a non-empty record set has all five keys.
\<close>

theorem validate_verdict_shape:
  "validate S F rules NoData = Inr (EarlyVerdict False [''No data provided for validation''])
   \<and> validate S F rules (Records []) =
       Inr (EarlyVerdict False [''No data provided for validation''])
   \<and> verdict_keys (EarlyVerdict False [''No data provided for validation'']) =
       [''is_valid'', ''errors'']
   \<and> (\<forall>data v. data \<noteq> [] \<and> validate S F rules (Records data) = Inr v \<longrightarrow>
         verdict_keys v = [''is_valid'', ''errors'', ''warnings'', ''record_issues'', ''stats''])"
  by (auto simp: ebind_def split: sum.splits)

theorem validate_verdict_shape_witness:
  "validate first_seen whole_floats no_rules (Records [[(''record_id'', PStr ''P001'')]])
     = Inr (FullVerdict
         \<lparr>is_valid = True, errors = [], warnings = [], record_issues = [],
          stats = \<lparr>total_records = 1, records_with_issues = 0, total_errors = 0,
                   total_warnings = 0\<rparr>\<rparr>)
   \<and> verdict_keys (FullVerdict
         \<lparr>is_valid = True, errors = [], warnings = [], record_issues = [],
          stats = \<lparr>total_records = 1, records_with_issues = 0, total_errors = 0,
                   total_warnings = 0\<rparr>\<rparr>)
     = [''is_valid'', ''errors'', ''warnings'', ''record_issues'', ''stats'']"
proof -
  have h: "validate first_seen whole_floats no_rules (Records [[(''record_id'', PStr ''P001'')]])
     = Inr (FullVerdict
         \<lparr>is_valid = True, errors = [], warnings = [], record_issues = [],
          stats = \<lparr>total_records = 1, records_with_issues = 0, total_errors = 0,
                   total_warnings = 0\<rparr>\<rparr>)"
    by code_simp
  have "[[(''record_id'', PStr ''P001'')]] \<noteq> []" by simp
  with validate_verdict_shape [of first_seen whole_floats no_rules] h show ?thesis by blast
qed

text \<open>
  C4.  A date range that leaves \<open>min\<close> to its default, and a date before 1900: the
  message of the range error reads \<open>range_rule['min']\<close>, and \<open>validate\<close> raises
  \<open>KeyError\<close>.
\<close>

theorem validate_default_min_raises:
  "validate S whole_floats
     (no_rules\<lparr>date_range := Some [(''dob'', [(''max'', PStr ''2000-01-01'')])]\<rparr>)
     (Records [[(''record_id'', PStr ''1''), (''dob'', PStr ''1850-01-01'')]])
   = Inl KeyError"
  by code_simp






















section \<open>Properties of the security handler\<close>

lemma secure_field_as_val:
  "secure_field ciph b field (h, n) =
     (h\<lparr>objs := (objs h)(b := fst (secure_field_val ciph field (objs h b, n)))\<rparr>,
      snd (secure_field_val ciph field (objs h b, n)))"
  by (simp add: secure_field_def secure_field_val_def setitem_def Let_def
      split: option.splits)

lemma secure_fields_as_val:
  "fold (secure_field ciph b) fs (h, n) =
     (h\<lparr>objs := (objs h)(b := fst (fold (secure_field_val ciph) fs (objs h b, n)))\<rparr>,
      snd (fold (secure_field_val ciph) fs (objs h b, n)))"
proof (induction fs arbitrary: h n)
  case Nil
  show ?case by simp
next
  case (Cons f fs)
  show ?case
    by (simp add: secure_field_as_val Cons.IH)
       (metis prod.collapse)
qed

lemma secure_record_as_val:
  "secure_record ciph fs a (h, n) =
     (next_addr h,
      \<lparr>objs = (objs h)(next_addr h := fst (fold (secure_field_val ciph) fs (objs h a, n))),
       next_addr = Suc (next_addr h)\<rparr>,
      snd (fold (secure_field_val ciph) fs (objs h a, n)))"
  by (simp add: secure_record_def alloc_def Let_def secure_fields_as_val)
lemma secure_records_spec:
  assumes "\<forall>a \<in> set data. a < next_addr h"
  shows "fst (secure_records ciph fs data (h, n)) = [next_addr h ..< next_addr h + length data]
     \<and> next_addr (fst (snd (secure_records ciph fs data (h, n)))) = next_addr h + length data
     \<and> (\<forall>a < next_addr h. objs (fst (snd (secure_records ciph fs data (h, n)))) a = objs h a)
     \<and> (\<forall>i < length data. \<exists>m.
           objs (fst (snd (secure_records ciph fs data (h, n)))) (next_addr h + i) =
             fst (fold (secure_field_val ciph) fs (objs h (data ! i), m)))"
  using assms
proof (induction data arbitrary: h n)
  case Nil
  show ?case by simp
next
  case (Cons a as)
  define r' where "r' = fst (fold (secure_field_val ciph) fs (objs h a, n))"
  define n1 where "n1 = snd (fold (secure_field_val ciph) fs (objs h a, n))"
  define h1 :: "pyrec heap"
    where "h1 = \<lparr>objs = (objs h)(next_addr h := r'), next_addr = Suc (next_addr h)\<rparr>"
  have one: "secure_record ciph fs a (h, n) = (next_addr h, (h1, n1))"
    by (simp add: secure_record_as_val h1_def r'_def n1_def)
  define res where "res = secure_records ciph fs as (h1, n1)"
  have step: "secure_records ciph fs (a # as) (h, n) = (next_addr h # fst res, snd res)"
    by (simp add: one res_def Let_def)
  have pre: "\<forall>x \<in> set as. x < next_addr h1"
    using Cons.prems by (auto simp: h1_def)
  note IH = Cons.IH [OF pre, of n1, folded res_def]
  note ih1 = IH [THEN conjunct1]
  note ih2 = IH [THEN conjunct2, THEN conjunct1]
  note ih3 = IH [THEN conjunct2, THEN conjunct2, THEN conjunct1, rule_format]
  note ih4 = IH [THEN conjunct2, THEN conjunct2, THEN conjunct2, rule_format]
  have nh1: "next_addr h1 = Suc (next_addr h)" by (simp add: h1_def)
  have c1: "fst (secure_records ciph fs (a # as) (h, n)) =
      [next_addr h ..< next_addr h + length (a # as)]"
    unfolding step by (simp add: ih1 nh1 upt_conv_Cons del: upt_Suc)
  have c2: "next_addr (fst (snd (secure_records ciph fs (a # as) (h, n)))) =
      next_addr h + length (a # as)"
    unfolding step by (simp add: ih2 nh1)
  have c3: "\<forall>x < next_addr h. objs (fst (snd (secure_records ciph fs (a # as) (h, n)))) x = objs h x"
  proof (intro allI impI)
    fix x assume x: "x < next_addr h"
    then have "x < next_addr h1" by (simp add: nh1)
    then have "objs (fst (snd res)) x = objs h1 x" by (rule ih3)
    also have "\<dots> = objs h x" using x by (simp add: h1_def)
    finally show "objs (fst (snd (secure_records ciph fs (a # as) (h, n)))) x = objs h x"
      unfolding step by simp
  qed
  have c4: "\<forall>i < length (a # as). \<exists>m.
           objs (fst (snd (secure_records ciph fs (a # as) (h, n)))) (next_addr h + i) =
             fst (fold (secure_field_val ciph) fs (objs h ((a # as) ! i), m))"
  proof (intro allI impI)
    fix i assume i: "i < length (a # as)"
    show "\<exists>m. objs (fst (snd (secure_records ciph fs (a # as) (h, n)))) (next_addr h + i) =
             fst (fold (secure_field_val ciph) fs (objs h ((a # as) ! i), m))"
    proof (cases i)
      case 0
      have "next_addr h < next_addr h1" by (simp add: nh1)
      then have "objs (fst (snd res)) (next_addr h) = objs h1 (next_addr h)"
        by (rule ih3)
      also have "\<dots> = r'" by (simp add: h1_def)
      finally show ?thesis using 0 unfolding step r'_def by auto
    next
      case (Suc j)
      with i have j: "j < length as" by simp
      from ih4 [OF j] obtain m where m: "objs (fst (snd res)) (next_addr h1 + j) =
             fst (fold (secure_field_val ciph) fs (objs h1 (as ! j), m))" by blast
      have "as ! j \<in> set as" using j by simp
      with Cons.prems have "as ! j < next_addr h" by simp
      then have "objs h1 (as ! j) = objs h (as ! j)" by (simp add: h1_def)
      with m show ?thesis using Suc unfolding step by (auto simp: nh1)
    qed
  qed
  show ?case by (intro conjI) (rule c1 c2 c3 c4)+
qed

lemma secure_field_val_other:
  assumes "g \<noteq> k" and "g @ ''_encrypted'' \<noteq> k"
  shows "map_of (fst (secure_field_val ciph g rn)) k = map_of (fst rn) k"
  using assms
  by (simp add: secure_field_val_def Let_def update_conv' split: option.splits)

lemma secure_fields_val_other:
  assumes "\<forall>g \<in> set gs. g \<noteq> k \<and> g @ ''_encrypted'' \<noteq> k"
  shows "map_of (fst (fold (secure_field_val ciph) gs rn)) k = map_of (fst rn) k"
  using assms
proof (induction gs arbitrary: rn)
  case Nil
  show ?case by simp
next
  case (Cons g gs)
  then show ?case by (simp add: secure_field_val_other)
qed

lemma secure_field_val_self:
  assumes "map_of (fst rn) f = Some v" and "truthy v"
  shows "map_of (fst (secure_field_val (Some c) f rn)) f = Some (PStr (redact_phi (py_str v)))"
    and "map_of (fst (secure_field_val (Some c) f rn)) (f @ ''_encrypted'') =
           Some (PStr (encrypt c (snd rn) (py_str v)))"
  using assms
  by (simp_all add: secure_field_val_def Let_def update_conv' present_truthy_def)

lemma count_list_one_split:
  assumes "count_list fs f = 1"
  shows "\<exists>pre post. fs = pre @ f # post \<and> f \<notin> set pre \<and> f \<notin> set post"
proof -
  from assms have "f \<in> set fs" by (metis count_list_0_iff zero_neq_one)
  then obtain pre post where sp: "fs = pre @ f # post" and pre: "f \<notin> set pre"
    by (meson split_list_first)
  from pre have "count_list pre f = 0" by simp
  with assms sp have "count_list post f = 0" by simp
  then have "f \<notin> set post" by (simp add: count_list_0_iff)
  with sp pre show ?thesis by blast
qed

lemma secure_fields_val_field:
  assumes once: "count_list fs f = 1"
    and nosib: "f @ ''_encrypted'' \<notin> set fs"
    and noshadow: "\<forall>g \<in> set fs. g @ ''_encrypted'' \<noteq> f"
    and v: "map_of r f = Some v" and t: "truthy v"
  shows "\<exists>m. map_of (fst (fold (secure_field_val (Some c)) fs (r, n))) (f @ ''_encrypted'')
               = Some (PStr (encrypt c m (py_str v)))
           \<and> map_of (fst (fold (secure_field_val (Some c)) fs (r, n))) f
               = Some (PStr (redact_phi (py_str v)))"
proof -
  from count_list_one_split [OF once] obtain pre post
    where sp: "fs = pre @ f # post" and pre: "f \<notin> set pre" and post: "f \<notin> set post"
    by blast
  define rn1 where "rn1 = fold (secure_field_val (Some c)) pre (r, n)"
  define rn2 where "rn2 = secure_field_val (Some c) f rn1"
  have fold_eq: "fold (secure_field_val (Some c)) fs (r, n) =
      fold (secure_field_val (Some c)) post rn2"
    by (simp add: sp rn1_def rn2_def)
  have "\<forall>g \<in> set pre. g \<noteq> f \<and> g @ ''_encrypted'' \<noteq> f"
    using pre noshadow sp by auto
  then have "map_of (fst rn1) f = map_of (fst (r, n)) f"
    unfolding rn1_def by (rule secure_fields_val_other)
  with v have v1: "map_of (fst rn1) f = Some v" by simp
  have s1: "map_of (fst rn2) f = Some (PStr (redact_phi (py_str v)))"
    unfolding rn2_def using v1 t by (rule secure_field_val_self(1))
  have s2: "map_of (fst rn2) (f @ ''_encrypted'') = Some (PStr (encrypt c (snd rn1) (py_str v)))"
    unfolding rn2_def using v1 t by (rule secure_field_val_self(2))
  have "\<forall>g \<in> set post. g \<noteq> f \<and> g @ ''_encrypted'' \<noteq> f"
    using post noshadow sp by auto
  then have p1: "map_of (fst (fold (secure_field_val (Some c)) post rn2)) f = map_of (fst rn2) f"
    by (rule secure_fields_val_other)
  have "\<forall>g \<in> set post. g \<noteq> f @ ''_encrypted'' \<and> g @ ''_encrypted'' \<noteq> f @ ''_encrypted''"
    using post nosib sp by auto
  then have p2: "map_of (fst (fold (secure_field_val (Some c)) post rn2)) (f @ ''_encrypted'')
      = map_of (fst rn2) (f @ ''_encrypted'')"
    by (rule secure_fields_val_other)
  show ?thesis
    unfolding fold_eq p1 p2 s1 s2 by blast
qed

lemma secure_phi_data_out:
  "fst (secure_phi_data sh data hn) =
     fst (secure_records (cipher sh)
            (if phi_fields sh = [] then detect_phi_fields (map (objs (fst hn)) data)
             else phi_fields sh) data hn)"
  by (simp add: secure_phi_data_def Let_def)

lemma secure_phi_data_state:
  "fst (snd (snd (secure_phi_data sh data hn))) =
     snd (secure_records (cipher sh)
            (if phi_fields sh = [] then detect_phi_fields (map (objs (fst hn)) data)
             else phi_fields sh) data hn)"
  by (simp add: secure_phi_data_def Let_def)

lemma secure_phi_data_handler:
  "fst (snd (secure_phi_data sh data hn)) =
     (if phi_fields sh = [] then sh\<lparr>phi_fields := detect_phi_fields (map (objs (fst hn)) data)\<rparr>
      else sh)"
  by (simp add: secure_phi_data_def Let_def)

lemma secure_phi_data_log:
  "snd (snd (snd (secure_phi_data sh data hn))) =
     (if phi_fields sh = []
      then [detection_entry (detect_phi_fields (map (objs (fst hn)) data))] else [])
     @ [Log INFO (''Applied security measures to ''
          @ str_nat (length (phi_fields (fst (snd (secure_phi_data sh data hn)))))
          @ '' PHI fields'')]"
  by (simp add: secure_phi_data_def Let_def)

lemma dropWhile_tag:
  "dropWhile (\<lambda>c. c = CHR ''+'') (replicate n CHR ''+'' @ CHR '':'' # s) = CHR '':'' # s"
  by (induction n) simp_all

lemma tag_cipher_roundtrip: "decrypt tag_cipher (encrypt tag_cipher n s) = Inr s"
  by (simp add: tag_cipher_def dropWhile_tag)

text \<open>
  C2 (amended).  With a cipher whose \<open>decrypt\<close> inverts \<open>encrypt\<close>, for a record of
  the set and a PHI field \<open>f\<close> with a truthy value that the handler's field list names
  once, and whose sibling name \<open>f_encrypted\<close> is not itself a listed field nor \<open>f\<close> the
  sibling name of a listed field: the secured record holds under \<open>f_encrypted\<close> a token
  that \<open>decrypt_field\<close> of the same handler turns back into \<open>str\<close> of the original
  value, and under \<open>f\<close> the redaction of that string.
\<close>

theorem encrypted_sibling_roundtrip:
  assumes ciph: "cipher sh = Some c"
    and rt: "\<forall>n s. decrypt c (encrypt c n s) = Inr s"
    and run: "secure_phi_data sh data (h, n) = (out, sh', (h', n'), lg)"
    and alloc: "\<forall>a \<in> set data. a < next_addr h"
    and i: "i < length data"
    and once: "count_list (phi_fields sh') f = 1"
    and nosib: "f @ ''_encrypted'' \<notin> set (phi_fields sh')"
    and noshadow: "\<forall>g \<in> set (phi_fields sh'). g @ ''_encrypted'' \<noteq> f"
    and v: "map_of (objs h (data ! i)) f = Some v"
    and t: "truthy v"
  shows "length out = length data
     \<and> (\<exists>tok. map_of (objs h' (out ! i)) (f @ ''_encrypted'') = Some (PStr tok)
               \<and> decrypt_field sh' tok = Inr (py_str v))
     \<and> map_of (objs h' (out ! i)) f = Some (PStr (redact_phi (py_str v)))"
proof -
  define fs where "fs = (if phi_fields sh = []
      then detect_phi_fields (map (objs (fst (h, n))) data) else phi_fields sh)"
  have sh': "sh' = (if phi_fields sh = [] then sh\<lparr>phi_fields := fs\<rparr> else sh)"
    using run secure_phi_data_handler [of sh data "(h, n)"] by (simp add: fs_def)
  have fs: "phi_fields sh' = fs" by (simp add: sh' fs_def)
  have c': "cipher sh' = Some c" by (simp add: sh' ciph)
  have out: "out = fst (secure_records (Some c) fs data (h, n))"
    using run secure_phi_data_out [of sh data "(h, n)"] by (simp add: fs_def ciph)
  have "snd (secure_records (Some c) fs data (h, n)) = (h', n')"
    using run secure_phi_data_state [of sh data "(h, n)"] by (simp add: fs_def ciph)
  then have h': "h' = fst (snd (secure_records (Some c) fs data (h, n)))" by simp
  note spec = secure_records_spec [OF alloc, of "Some c" fs n, folded out h']
  have outs: "out = [next_addr h ..< next_addr h + length data]" by (rule spec [THEN conjunct1])
  then have len: "length out = length data" by simp
  have nth: "out ! i = next_addr h + i" using i by (simp add: outs)
  from spec [THEN conjunct2, THEN conjunct2, THEN conjunct2, rule_format, OF i]
  obtain m where m: "objs h' (out ! i) =
      fst (fold (secure_field_val (Some c)) fs (objs h (data ! i), m))"
    unfolding nth by blast
  from secure_fields_val_field [OF once [unfolded fs] nosib [unfolded fs]
      noshadow [unfolded fs] v t, of c m]
  obtain k where k: "map_of (objs h' (out ! i)) (f @ ''_encrypted'')
        = Some (PStr (encrypt c k (py_str v)))"
    and red: "map_of (objs h' (out ! i)) f = Some (PStr (redact_phi (py_str v)))"
    unfolding m by blast
  have "decrypt_field sh' (encrypt c k (py_str v)) = Inr (py_str v)"
    using rt by (simp add: decrypt_field_def c')
  with k have "\<exists>tok. map_of (objs h' (out ! i)) (f @ ''_encrypted'') = Some (PStr tok)
               \<and> decrypt_field sh' tok = Inr (py_str v)" by blast
  with len red show ?thesis by blast
qed

theorem encrypted_sibling_roundtrip_witness:
  "(\<exists>tok. map_of (objs (fst (fst (snd (snd (secure_phi_data
               (fst (new_security_handler tag_cipher True (Some [''ssn''])))
               [0] (ssn_store, 0))))))
             (fst (secure_phi_data
               (fst (new_security_handler tag_cipher True (Some [''ssn''])))
               [0] (ssn_store, 0)) ! 0)) ''ssn_encrypted'' = Some (PStr tok)
         \<and> decrypt_field (fst (snd (secure_phi_data
               (fst (new_security_handler tag_cipher True (Some [''ssn''])))
               [0] (ssn_store, 0)))) tok = Inr ''123-45-6789'')
   \<and> map_of (objs (fst (fst (snd (snd (secure_phi_data
               (fst (new_security_handler tag_cipher True (Some [''ssn''])))
               [0] (ssn_store, 0))))))
             (fst (secure_phi_data
               (fst (new_security_handler tag_cipher True (Some [''ssn''])))
               [0] (ssn_store, 0)) ! 0)) ''ssn'' = Some (PStr ''12*****89'')"
proof -
  let ?sh = "fst (new_security_handler tag_cipher True (Some [''ssn'']))"
  let ?R = "secure_phi_data ?sh [0] (ssn_store, 0)"
  have ciph: "cipher ?sh = Some tag_cipher" by (simp add: new_security_handler_def)
  have rt: "\<forall>n s. decrypt tag_cipher (encrypt tag_cipher n s) = Inr s"
    by (simp add: tag_cipher_roundtrip)
  have run: "?R = (fst ?R, fst (snd ?R),
      (fst (fst (snd (snd ?R))), snd (fst (snd (snd ?R)))), snd (snd (snd ?R)))" by simp
  have al: "\<forall>a \<in> set [0]. a < next_addr ssn_store"
    by (simp add: ssn_store_def alloc_def empty_heap_def)
  have i: "0 < length [0::nat]" by simp
  have fs: "phi_fields (fst (snd ?R)) = [''ssn'']"
    by (simp add: secure_phi_data_handler new_security_handler_def)
  have once: "count_list (phi_fields (fst (snd ?R))) ''ssn'' = 1" by (simp add: fs)
  have nosib: "''ssn'' @ ''_encrypted'' \<notin> set (phi_fields (fst (snd ?R)))" by (simp add: fs)
  have noshadow: "\<forall>g \<in> set (phi_fields (fst (snd ?R))). g @ ''_encrypted'' \<noteq> ''ssn''"
    by (simp add: fs)
  have v: "map_of (objs ssn_store ([0] ! 0)) ''ssn'' = Some (PStr ''123-45-6789'')"
    by (simp add: ssn_store_def alloc_def empty_heap_def)
  have t: "truthy (PStr ''123-45-6789'')" by simp
  have red: "redact_phi ''123-45-6789'' = ''12*****89''" by code_simp
  from encrypted_sibling_roundtrip [OF ciph rt run al i once nosib noshadow v t]
  show ?thesis by (simp add: red)
qed

theorem encrypted_sibling_counterexample:
  "fst (secure_phi_data
          (fst (new_security_handler tag_cipher True (Some [''ssn'', ''ssn_encrypted''])))
          [0] (ssn_store, 0)) = [1]
   \<and> map_of (objs (fst (fst (snd (snd (secure_phi_data
          (fst (new_security_handler tag_cipher True (Some [''ssn'', ''ssn_encrypted''])))
          [0] (ssn_store, 0)))))) 1) ''ssn_encrypted'' = Some (PStr '':1********89'')
   \<and> decrypt_field (fst (snd (secure_phi_data
          (fst (new_security_handler tag_cipher True (Some [''ssn'', ''ssn_encrypted''])))
          [0] (ssn_store, 0)))) '':1********89'' = Inr ''1********89''
   \<and> map_of (objs ssn_store 0) ''ssn'' = Some (PStr ''123-45-6789'')"
  by code_simp

lemma secure_phi_data_fixed:
  assumes "phi_fields sh \<noteq> []"
  shows "fst (snd (secure_phi_data sh data hn)) = sh"
    and "detection_entry fs \<notin> set (snd (snd (snd (secure_phi_data sh data hn))))"
  using assms
  by (simp_all add: secure_phi_data_handler secure_phi_data_log detection_entry_def)

lemma secure_calls_fixed:
  assumes "phi_fields sh \<noteq> []"
  shows "fst (secure_calls sh sets hn) = sh
     \<and> detection_entry fs \<notin> set (snd (snd (secure_calls sh sets hn)))"
  using assms
proof (induction sets arbitrary: hn)
  case Nil
  show ?case by simp
next
  case (Cons data rest)
  show ?case
    using Cons.IH [OF Cons.prems] Cons.prems
    by (simp add: Let_def secure_phi_data_fixed)
qed

text \<open>
  C7 (amended).  A call of the secure operation on a handler whose PHI field list is
  not empty leaves the list as it is and logs no detection, and so does any sequence of
  calls.  On a handler whose list is empty the call runs the detection on the first
  record of its own record set, logs it and stores the result, whether or not an
  earlier call has run the detection already.
\<close>

theorem phi_fields_inference:
  "(phi_fields sh \<noteq> [] \<longrightarrow>
      phi_fields (fst (snd (secure_phi_data sh data hn))) = phi_fields sh
    \<and> (\<forall>fs. detection_entry fs \<notin> set (snd (snd (snd (secure_phi_data sh data hn)))))
    \<and> phi_fields (fst (secure_calls sh sets hn)) = phi_fields sh
    \<and> (\<forall>fs. detection_entry fs \<notin> set (snd (snd (secure_calls sh sets hn)))))
   \<and> (phi_fields sh = [] \<longrightarrow>
      phi_fields (fst (snd (secure_phi_data sh data hn))) =
        detect_phi_fields (map (objs (fst hn)) data)
    \<and> detection_entry (detect_phi_fields (map (objs (fst hn)) data))
        \<in> set (snd (snd (snd (secure_phi_data sh data hn)))))"
  by (simp add: secure_phi_data_fixed secure_calls_fixed)
     (simp add: secure_phi_data_handler secure_phi_data_log)

theorem phi_fields_inference_witness:
  "phi_fields (fst (secure_calls (fst (new_security_handler tag_cipher True (Some [''ssn''])))
      [[0], [0]] (ssn_store, 0))) = [''ssn'']
   \<and> phi_fields (fst (snd (secure_phi_data (fst (new_security_handler tag_cipher True None))
      [1] (two_record_store, 0)))) = [''name'']"
proof -
  let ?s1 = "fst (new_security_handler tag_cipher True (Some [''ssn'']))"
  let ?s2 = "fst (new_security_handler tag_cipher True None)"
  have p1: "phi_fields ?s1 = [''ssn'']" by (simp add: new_security_handler_def)
  have p2: "phi_fields ?s2 = []" by (simp add: new_security_handler_def)
  have d: "detect_phi_fields (map (objs (fst (two_record_store, 0::nat))) [1]) = [''name'']"
    by code_simp
  from phi_fields_inference [of ?s1 "[0]" "(ssn_store, 0)" "[[0], [0]]"] p1
  have a: "phi_fields (fst (secure_calls ?s1 [[0], [0]] (ssn_store, 0))) = [''ssn'']"
    by simp
  from phi_fields_inference [of ?s2 "[1]" "(two_record_store, 0)" "[]"] p2
  have b: "phi_fields (fst (snd (secure_phi_data ?s2 [1] (two_record_store, 0)))) =
      detect_phi_fields (map (objs (fst (two_record_store, 0::nat))) [1])"
    by blast
  show ?thesis using a b unfolding d by simp
qed

theorem phi_fields_inference_counterexample:
  "phi_fields (fst (snd (secure_phi_data (fst (new_security_handler tag_cipher True None))
      [0] (two_record_store, 0)))) = []
   \<and> phi_fields (fst (secure_calls (fst (new_security_handler tag_cipher True None))
      [[0], [1]] (two_record_store, 0))) = [''name'']
   \<and> snd (snd (secure_calls (fst (new_security_handler tag_cipher True None))
      [[0], [1]] (two_record_store, 0))) =
       [Log INFO ''Automatically detected potential PHI fields: '',
        Log INFO ''Applied security measures to 0 PHI fields'',
        Log INFO ''Automatically detected potential PHI fields: name'',
        Log INFO ''Applied security measures to 1 PHI fields'']"
  by code_simp


lemma split_on_nonempty: "split_on c v \<noteq> []"
  by (induction v) (auto split: list.splits)

lemma split_on_first: "split_on c v ! 0 = takeWhile (\<lambda>x. x \<noteq> c) v"
proof (induction v)
  case Nil
  show ?case by simp
next
  case (Cons x xs)
  then show ?case
    using split_on_nonempty [of c xs] by (cases "split_on c xs") auto
qed

lemma split_on_second:
  "c \<in> set v \<Longrightarrow>
   split_on c v ! 1 = takeWhile (\<lambda>x. x \<noteq> c) (tl (dropWhile (\<lambda>x. x \<noteq> c) v))"
proof (induction v)
  case Nil
  then show ?case by simp
next
  case (Cons x xs)
  show ?case
  proof (cases "x = c")
    case True
    then show ?thesis using split_on_first [of c xs] by simp
  next
    case False
    with Cons.prems have "c \<in> set xs" by simp
    from Cons.IH [OF this] False show ?thesis
      using split_on_nonempty [of c xs] by (cases "split_on c xs") auto
  qed
qed

lemma phone_char_not_at: "is_phone_char x \<Longrightarrow> x \<noteq> CHR ''@''"
  by (auto simp: is_phone_char_def is_digit_def)

lemma phone_shaped_no_at: "phone_shaped v \<Longrightarrow> CHR ''@'' \<notin> set v"
proof
  assume p: "phone_shaped v" and a: "CHR ''@'' \<in> set v"
  from p have ne: "v \<noteq> []" by (simp add: phone_shaped_def)
  from p consider "list_all is_phone_char v"
    | "last v = CHR 0x0A" "list_all is_phone_char (butlast v)"
    by (auto simp: phone_shaped_def)
  then show False
  proof cases
    case 1
    with a show False using phone_char_not_at by (auto simp: list_all_iff)
  next
    case 2
    from ne have "v = butlast v @ [last v]" by simp
    with a have "CHR ''@'' \<in> set (butlast v) \<or> CHR ''@'' = last v"
      by (metis Un_iff empty_iff empty_set insert_iff list.simps(15) set_append)
    with 2 show False using phone_char_not_at by (auto simp: list_all_iff)
  qed
qed

text \<open>
  C6 (amended).  The redaction of a non-empty string is decided in this order.  An
  email-shaped value (it has an \<open>@\<close>, and a dot between the first \<open>@\<close> and the
  next) becomes the masked local part, \<open>@\<close> and the text up to the next \<open>@\<close>: a local
  part of more than two characters keeps its first and last character around stars, a
  shorter one is all stars.  Otherwise a value of digits, hyphens and parentheses (one
  final newline allowed) is reduced to its digits: more than four digits keep the first
  two and last two around stars, four or fewer become stars.  Otherwise a value longer
  than six characters keeps its first two and last two characters around stars, and a
  shorter one becomes as many stars as it has characters.  The empty string is returned
  as it is.  No value is both email-shaped and of the digit kind.
\<close>

theorem redact_phi_cases:
  "redact_phi [] = []
   \<and> (email_shaped v \<longleftrightarrow>
        CHR ''@'' \<in> set v
        \<and> CHR ''.'' \<in> set (takeWhile (\<lambda>x. x \<noteq> CHR ''@'')
                            (tl (dropWhile (\<lambda>x. x \<noteq> CHR ''@'') v))))
   \<and> (email_shaped v \<longrightarrow> \<not> phone_shaped v)
   \<and> (email_shaped v \<longrightarrow>
        redact_phi v =
          (if length (takeWhile (\<lambda>x. x \<noteq> CHR ''@'') v) > 2
           then hd v # stars (length (takeWhile (\<lambda>x. x \<noteq> CHR ''@'') v) - 2)
                @ [last (takeWhile (\<lambda>x. x \<noteq> CHR ''@'') v)]
           else stars (length (takeWhile (\<lambda>x. x \<noteq> CHR ''@'') v)))
          @ CHR ''@'' # takeWhile (\<lambda>x. x \<noteq> CHR ''@'')
                            (tl (dropWhile (\<lambda>x. x \<noteq> CHR ''@'') v)))
   \<and> (phone_shaped v \<longrightarrow>
        redact_phi v =
          (if length (filter is_digit v) > 4
           then take 2 (filter is_digit v) @ stars (length (filter is_digit v) - 4)
                @ drop (length (filter is_digit v) - 2) (filter is_digit v)
           else stars (length (filter is_digit v))))
   \<and> (\<not> email_shaped v \<and> \<not> phone_shaped v \<and> length v > 6 \<longrightarrow>
        redact_phi v = take 2 v @ stars (length v - 4) @ drop (length v - 2) v)
   \<and> (\<not> email_shaped v \<and> \<not> phone_shaped v \<and> length v \<le> 6 \<longrightarrow>
        redact_phi v = stars (length v))"
proof -
  have e: "email_shaped v \<longleftrightarrow>
        CHR ''@'' \<in> set v
        \<and> CHR ''.'' \<in> set (takeWhile (\<lambda>x. x \<noteq> CHR ''@'')
                            (tl (dropWhile (\<lambda>x. x \<noteq> CHR ''@'') v)))"
    using split_on_second [of "CHR ''@''" v] by (auto simp: email_shaped_def)
  have x: "email_shaped v \<longrightarrow> \<not> phone_shaped v"
    using phone_shaped_no_at [of v] by (auto simp: email_shaped_def)
  have hd_local: "hd (takeWhile (\<lambda>x. x \<noteq> CHR ''@'') v) = hd v"
    if "length (takeWhile (\<lambda>x. x \<noteq> CHR ''@'') v) > 2"
    using that by (cases v) (auto split: if_splits)
  have m: "email_shaped v \<longrightarrow>
        redact_phi v =
          (if length (takeWhile (\<lambda>x. x \<noteq> CHR ''@'') v) > 2
           then hd v # stars (length (takeWhile (\<lambda>x. x \<noteq> CHR ''@'') v) - 2)
                @ [last (takeWhile (\<lambda>x. x \<noteq> CHR ''@'') v)]
           else stars (length (takeWhile (\<lambda>x. x \<noteq> CHR ''@'') v)))
          @ CHR ''@'' # takeWhile (\<lambda>x. x \<noteq> CHR ''@'')
                            (tl (dropWhile (\<lambda>x. x \<noteq> CHR ''@'') v))"
  proof
    assume em: "email_shaped v"
    then have at: "CHR ''@'' \<in> set v" and ne: "v \<noteq> []" by (auto simp: email_shaped_def)
    show "redact_phi v =
          (if length (takeWhile (\<lambda>x. x \<noteq> CHR ''@'') v) > 2
           then hd v # stars (length (takeWhile (\<lambda>x. x \<noteq> CHR ''@'') v) - 2)
                @ [last (takeWhile (\<lambda>x. x \<noteq> CHR ''@'') v)]
           else stars (length (takeWhile (\<lambda>x. x \<noteq> CHR ''@'') v)))
          @ CHR ''@'' # takeWhile (\<lambda>x. x \<noteq> CHR ''@'')
                            (tl (dropWhile (\<lambda>x. x \<noteq> CHR ''@'') v))"
      using em ne hd_local
      by (simp add: redact_phi_def Let_def split_on_first split_on_second [OF at, unfolded One_nat_def])
  qed
  have p: "phone_shaped v \<longrightarrow>
        redact_phi v =
          (if length (filter is_digit v) > 4
           then take 2 (filter is_digit v) @ stars (length (filter is_digit v) - 4)
                @ drop (length (filter is_digit v) - 2) (filter is_digit v)
           else stars (length (filter is_digit v)))"
    using x by (auto simp: redact_phi_def Let_def phone_shaped_def)
  have g: "\<not> email_shaped v \<and> \<not> phone_shaped v \<and> length v > 6 \<longrightarrow>
        redact_phi v = take 2 v @ stars (length v - 4) @ drop (length v - 2) v"
    by (auto simp: redact_phi_def)
  have s: "\<not> email_shaped v \<and> \<not> phone_shaped v \<and> length v \<le> 6 \<longrightarrow>
        redact_phi v = stars (length v)"
    by (auto simp: redact_phi_def stars_def)
  have z: "redact_phi [] = []" by (simp add: redact_phi_def)
  show ?thesis by (intro conjI) (rule z e x m p g s)+
qed

theorem redact_phi_cases_witness:
  "redact_phi ''john.doe@example.com'' = ''j******e@example.com''
   \<and> redact_phi ''ab@x.com'' = ''**@x.com''
   \<and> redact_phi ''123-45-6789'' = ''12*****89''
   \<and> redact_phi ''Jonathan'' = ''Jo****an''
   \<and> redact_phi ''Bob'' = ''***''"
proof -
  have e1: "email_shaped ''john.doe@example.com''" by code_simp
  have e2: "email_shaped ''ab@x.com''" by code_simp
  have p3: "phone_shaped ''123-45-6789''" by code_simp
  have g4: "\<not> email_shaped ''Jonathan'' \<and> \<not> phone_shaped ''Jonathan'' \<and> length ''Jonathan'' > 6"
    by code_simp
  have s5: "\<not> email_shaped ''Bob'' \<and> \<not> phone_shaped ''Bob'' \<and> length ''Bob'' \<le> 6"
    by code_simp
  note c1 = redact_phi_cases [of "''john.doe@example.com''", THEN conjunct2, THEN conjunct2,
      THEN conjunct2, THEN conjunct1, rule_format, OF e1]
  note c2 = redact_phi_cases [of "''ab@x.com''", THEN conjunct2, THEN conjunct2,
      THEN conjunct2, THEN conjunct1, rule_format, OF e2]
  note c3 = redact_phi_cases [of "''123-45-6789''", THEN conjunct2, THEN conjunct2,
      THEN conjunct2, THEN conjunct2, THEN conjunct1, rule_format, OF p3]
  note c4 = redact_phi_cases [of "''Jonathan''", THEN conjunct2, THEN conjunct2,
      THEN conjunct2, THEN conjunct2, THEN conjunct2, THEN conjunct1, rule_format, OF g4]
  note c5 = redact_phi_cases [of "''Bob''", THEN conjunct2, THEN conjunct2,
      THEN conjunct2, THEN conjunct2, THEN conjunct2, THEN conjunct2, rule_format, OF s5]
  have "redact_phi ''john.doe@example.com'' = ''j******e@example.com''"
    unfolding c1 by (simp add: stars_def)
  moreover have "redact_phi ''ab@x.com'' = ''**@x.com''"
    unfolding c2 by (simp add: stars_def)
  moreover have "redact_phi ''123-45-6789'' = ''12*****89''"
    unfolding c3 by (simp add: stars_def is_digit_def)
  moreover have "redact_phi ''Jonathan'' = ''Jo****an''"
    unfolding c4 by (simp add: stars_def)
  moreover have "redact_phi ''Bob'' = ''***''"
    unfolding c5 by (simp add: stars_def)
  ultimately show ?thesis by simp
qed

theorem redact_phi_counterexample:
  "email_shaped ''ab@x.com''
   \<and> redact_phi ''ab@x.com'' = ''**@x.com''
   \<and> spec_redact ''ab@x.com'' = ''ab@x.com''
   \<and> phone_shaped ''1-2-3'' \<and> length ''1-2-3'' > 4
   \<and> redact_phi ''1-2-3'' = ''***''
   \<and> spec_redact ''1-2-3'' = ''1223''"
  by code_simp

section \<open>Properties of the mapper\<close>







lemma finish_strptime_error: "finish_strptime ms = Inl e \<Longrightarrow> e = ValueError"
  by (auto simp: finish_strptime_def split: list.splits prod.splits if_splits)

lemma try_candidates:
  "try_formats E s candidate_formats =
     (case strptime_iso s of
        Inr d \<Rightarrow> Some (Inr d)
      | Inl a \<Rightarrow>
          (case strptime_us s of
             Inr d \<Rightarrow> Some (Inr d)
           | Inl b \<Rightarrow>
               (case strptime_dby s of Inr d \<Rightarrow> Some (Inr d) | Inl c \<Rightarrow> None)))"
proof -
  have i: "strptime E s ''%Y-%m-%d'' = strptime_iso s" by (simp add: strptime_def)
  have u: "strptime E s ''%m/%d/%Y'' = strptime_us s" by (simp add: strptime_def)
  have b: "strptime E s ''%d-%b-%Y'' = strptime_dby s" by (simp add: strptime_def)
  have ei: "\<And>e. strptime_iso s = Inl e \<Longrightarrow> e = ValueError"
    unfolding strptime_iso_def by (rule finish_strptime_error)
  have eu: "\<And>e. strptime_us s = Inl e \<Longrightarrow> e = ValueError"
    unfolding strptime_us_def by (rule finish_strptime_error)
  have eb: "\<And>e. strptime_dby s = Inl e \<Longrightarrow> e = ValueError"
    unfolding strptime_dby_def by (rule finish_strptime_error)
  show ?thesis
    unfolding candidate_formats_def try_formats.simps i u b
    by (auto split: sum.splits pyerr.splits dest: ei eu eb)
qed

lemma is_digit_digit_char: "is_digit (digit_char n)"
proof -
  have "n mod 10 < length ''0123456789''" by simp
  then have "''0123456789'' ! (n mod 10) \<in> set ''0123456789''" by (rule nth_mem)
  then show ?thesis unfolding is_digit_def digit_char_def .
qed

lemma iso_shaped_strftime: "1000 \<le> fst dt \<Longrightarrow> iso_shaped (strftime_ymd E dt)"
  by (cases dt) (simp add: iso_shaped_def strftime_ymd_def is_digit_digit_char)

lemma format_date_no_format:
  assumes "\<not> isna v" and "v \<noteq> PStr []" and "fmt = None \<or> fmt = Some []"
  shows "format_date E v fmt =
          (case strptime_iso (py_str v) of
             Inr d \<Rightarrow> Inr (PStr (strftime_ymd E d), [])
           | Inl a \<Rightarrow>
              (case strptime_us (py_str v) of
                 Inr d \<Rightarrow> Inr (PStr (strftime_ymd E d), [])
               | Inl b \<Rightarrow>
                  (case strptime_dby (py_str v) of
                     Inr d \<Rightarrow> Inr (PStr (strftime_ymd E d), [])
                   | Inl c \<Rightarrow>
                       Inr (v, [Log WARNING (''Could not parse date value: '' @ py_str v)]))))"
  using assms
  by (auto simp: format_date_def try_candidates except_Exception_def ebind_def
      split: sum.splits)

lemma format_date_explicit:
  assumes "\<not> isna v" and "v \<noteq> PStr []" and "fmt = Some f" and "f \<noteq> []"
  shows "format_date E v fmt =
          (case strptime E (py_str v) f of
             Inr d \<Rightarrow> Inr (PStr (strftime_ymd E d), [])
           | Inl e \<Rightarrow>
               Inr (v, [LogExc WARNING (''Error formatting date '' @ py_str v @ '': '') e]))"
  using assms
  by (auto simp: format_date_def except_Exception_def ebind_def split: sum.splits)

lemma format_date_total: "\<exists>r. format_date E v fmt = Inr r"
  by (simp add: format_date_def except_Exception_def split: sum.splits)

lemma format_date_missing:
  "isna v \<or> v = PStr [] \<Longrightarrow> format_date E v fmt = Inr (PStr [], [])"
  by (auto simp: format_date_def)

text \<open>
  The examples of the documentation: \<open>03/15/2023\<close> gives \<open>2023-03-15\<close>, and
  \<open>not-a-date\<close> is returned as it is, with one warning.
\<close>

lemma format_date_examples:
  "format_date E (PStr ''03/15/2023'') None = Inr (PStr ''2023-03-15'', [])
   \<and> format_date E (PStr ''not-a-date'') None =
       Inr (PStr ''not-a-date'', [Log WARNING ''Could not parse date value: not-a-date''])"
proof -
  have i1: "strptime_iso ''03/15/2023'' = Inl ValueError" by code_simp
  have u1: "strptime_us ''03/15/2023'' = Inr (2023, 3, 15)" by code_simp
  have s1: "strftime_ymd E (2023, 3, 15) = ''2023-03-15''"
    by (simp add: strftime_ymd_def digit_char_def)
  have f: "format_date E (PStr ''03/15/2023'') None = Inr (PStr ''2023-03-15'', [])"
    by (simp add: format_date_no_format i1 u1 s1)
  have i2: "strptime_iso ''not-a-date'' = Inl ValueError" by code_simp
  have u2: "strptime_us ''not-a-date'' = Inl ValueError" by code_simp
  have b2: "strptime_dby ''not-a-date'' = Inl ValueError" by code_simp
  have g: "format_date E (PStr ''not-a-date'') None =
       Inr (PStr ''not-a-date'', [Log WARNING ''Could not parse date value: not-a-date''])"
    by (simp add: format_date_no_format i2 u2 b2)
  show ?thesis by (intro conjI) (rule f g)+
qed

text \<open>
  C5.  \<open>_format_date\<close> on a date before the year 1000.  The string \<open>0001-01-01\<close>
  parses as \<open>%Y-%m-%d\<close>, the first candidate, and the result is the year as the
  platform prints it, followed by \<open>-01-01\<close>: where the C library prints the year
  without leading zeros the result is \<open>1-01-01\<close>, which is not of the form
  \<open>YYYY-MM-DD\<close> the function's comment announces.  The same holds for
  \<open>01/05/0203\<close>, parsed as \<open>%m/%d/%Y\<close>.
\<close>

theorem format_date_early_year:
  "format_date E (PStr ''0001-01-01'') None = Inr (PStr (year_below_1000 E 1 @ ''-01-01''), [])
   \<and> format_date plain_env (PStr ''0001-01-01'') None = Inr (PStr ''1-01-01'', [])
   \<and> format_date plain_env (PStr ''01/05/0203'') None = Inr (PStr ''203-01-05'', [])
   \<and> \<not> iso_shaped ''1-01-01'' \<and> \<not> iso_shaped ''203-01-05''"
proof -
  have i1: "strptime_iso ''0001-01-01'' = Inr (1, 1, 1)" by code_simp
  have s1: "strftime_ymd E (1, 1, 1) = year_below_1000 E 1 @ ''-01-01''"
    unfolding strftime_ymd_def digit_char_def by simp
  have a: "format_date E (PStr ''0001-01-01'') None =
      Inr (PStr (year_below_1000 E 1 @ ''-01-01''), [])"
    by (simp add: format_date_no_format i1 s1 [unfolded One_nat_def])
  have y1: "year_below_1000 plain_env 1 = ''1''" by code_simp
  have p1: "strftime_ymd plain_env (1, 1, 1) = ''1-01-01''"
    unfolding strftime_ymd_def digit_char_def by (simp add: y1 [unfolded One_nat_def])
  have b: "format_date plain_env (PStr ''0001-01-01'') None = Inr (PStr ''1-01-01'', [])"
    by (simp add: format_date_no_format i1 p1 [unfolded One_nat_def])
  have i2: "strptime_iso ''01/05/0203'' = Inl ValueError" by code_simp
  have u2: "strptime_us ''01/05/0203'' = Inr (203, 1, 5)" by code_simp
  have y2: "year_below_1000 plain_env 203 = ''203''" by code_simp
  have s2: "strftime_ymd plain_env (203, 1, 5) = ''203-01-05''"
    by (simp add: strftime_ymd_def digit_char_def y2)
  have c: "format_date plain_env (PStr ''01/05/0203'') None = Inr (PStr ''203-01-05'', [])"
    by (simp add: format_date_no_format i2 u2 s2 [unfolded One_nat_def])
  have d: "\<not> iso_shaped ''1-01-01''" by code_simp
  have e: "\<not> iso_shaped ''203-01-05''" by code_simp
  show ?thesis by (intro conjI) (rule a b c d e)+
qed

lemma objs_setitem: "objs (setitem h b k x) a = (if a = b then AList.update k x (objs h b) else objs h a)"
  by (simp add: setitem_def)

lemma next_addr_setitem: "next_addr (setitem h b k x) = next_addr h"
  by (simp add: setitem_def)

lemma map_field_frame:
  "next_addr (fst (snd (map_field E fm row b st))) = next_addr (fst st)
   \<and> (\<forall>a. a \<noteq> b \<longrightarrow> objs (fst (snd (map_field E fm row b st))) a = objs (fst st) a)"
  by (simp add: map_field_def objs_setitem next_addr_setitem split: option.splits sum.splits)

lemma map_fields_frame:
  "next_addr (fst (snd (map_fields E fms row b st))) = next_addr (fst st)
   \<and> (\<forall>a. a \<noteq> b \<longrightarrow> objs (fst (snd (map_fields E fms row b st))) a = objs (fst st) a)"
proof (induction fms arbitrary: st)
  case Nil
  show ?case by simp
next
  case (Cons fm fms)
  obtain r st1 where one: "map_field E fm row b st = (r, st1)" by (cases "map_field E fm row b st")
  from map_field_frame [of E fm row b st] one
  have f1: "next_addr (fst st1) = next_addr (fst st)"
    and f2: "\<forall>a. a \<noteq> b \<longrightarrow> objs (fst st1) a = objs (fst st) a" by simp_all
  show ?case
  proof (cases r)
    case None
    with one have "map_fields E (fm # fms) row b st = map_fields E fms row b st1" by simp
    with Cons.IH [of st1] f1 f2 show ?thesis by simp
  next
    case (Some e)
    with one have "map_fields E (fm # fms) row b st = (Some e, st1)" by simp
    with f1 f2 show ?thesis by simp
  qed
qed

lemma map_rows_frame:
  "next_addr (fst st) \<le> next_addr (fst (snd (map_rows E M rows acc st)))
   \<and> (\<forall>a < next_addr (fst st). objs (fst (snd (map_rows E M rows acc st))) a = objs (fst st) a)
   \<and> (\<forall>out. fst (map_rows E M rows acc st) = Inr out \<longrightarrow>
        (\<forall>b \<in> set out. b \<in> set acc \<or> next_addr (fst st) \<le> b))"
proof (induction rows arbitrary: acc st)
  case Nil
  show ?case by simp
next
  case (Cons row rows)
  define b where "b = next_addr (fst st)"
  define h1 :: "trec heap" where "h1 = snd (alloc [] (fst st))"
  have al: "alloc [] (fst st) = (b, h1)" by (simp add: b_def h1_def alloc_def)
  have n1: "next_addr h1 = Suc b" by (simp add: h1_def b_def alloc_def)
  have o1: "\<And>a. a < b \<Longrightarrow> objs h1 a = objs (fst st) a" by (simp add: h1_def b_def alloc_def)
  show ?case
  proof (cases "map_of row (record_id_field M)")
    case None
    define st1 :: mstate where "st1 = (h1, snd st @ [Log WARNING (''Record ID field ''
        @ [CHR 0x27] @ record_id_field M @ [CHR 0x27] @ '' not found in source data'')])"
    have step: "map_rows E M (row # rows) acc st = map_rows E M rows acc st1"
      using None by (simp add: al st1_def Let_def)
    have s1: "fst st1 = h1" by (simp add: st1_def)
    note IH = Cons.IH [of st1 acc, unfolded s1 n1]
    have c1: "next_addr (fst st) \<le> next_addr (fst (snd (map_rows E M (row # rows) acc st)))"
      unfolding step using IH [THEN conjunct1] by (simp add: b_def)
    have c2: "\<forall>a < next_addr (fst st).
        objs (fst (snd (map_rows E M (row # rows) acc st))) a = objs (fst st) a"
      unfolding step using IH [THEN conjunct2, THEN conjunct1] o1 by (simp add: b_def)
    have c3: "\<forall>out. fst (map_rows E M (row # rows) acc st) = Inr out \<longrightarrow>
        (\<forall>x \<in> set out. x \<in> set acc \<or> next_addr (fst st) \<le> x)"
      unfolding step using IH [THEN conjunct2, THEN conjunct2] by (fastforce simp: b_def)
    show ?thesis by (intro conjI) (rule c1 c2 c3)+
  next
    case (Some idv)
    define st0 :: mstate
      where "st0 = (setitem h1 b ''record_id'' (Scalar (PStr (py_str idv))), snd st)"
    obtain r st2 where mf: "map_fields E (mapping_fields M) row b st0 = (r, st2)"
      by (cases "map_fields E (mapping_fields M) row b st0")
    from map_fields_frame [of E "mapping_fields M" row b st0] mf
    have n2: "next_addr (fst st2) = Suc b"
      and o2: "\<And>a. a < b \<Longrightarrow> objs (fst st2) a = objs (fst st) a"
      using o1 by (simp_all add: st0_def next_addr_setitem n1 objs_setitem)
    show ?thesis
    proof (cases r)
      case (Some e)
      have step: "map_rows E M (row # rows) acc st = (Inl e, st2)"
        using \<open>map_of row (record_id_field M) = Some idv\<close> mf Some
        by (simp add: al st0_def Let_def)
      show ?thesis unfolding step using n2 o2 by (simp add: b_def)
    next
      case None
      have step: "map_rows E M (row # rows) acc st = map_rows E M rows (acc @ [b]) st2"
        using \<open>map_of row (record_id_field M) = Some idv\<close> mf None
        by (simp add: al st0_def Let_def)
      note IH = Cons.IH [of st2 "acc @ [b]", unfolded n2]
      have c1: "next_addr (fst st) \<le> next_addr (fst (snd (map_rows E M (row # rows) acc st)))"
        unfolding step using IH [THEN conjunct1] by (simp add: b_def)
      have c2: "\<forall>a < next_addr (fst st).
          objs (fst (snd (map_rows E M (row # rows) acc st))) a = objs (fst st) a"
        unfolding step using IH [THEN conjunct2, THEN conjunct1] o2 by (simp add: b_def)
      have c3: "\<forall>out. fst (map_rows E M (row # rows) acc st) = Inr out \<longrightarrow>
          (\<forall>x \<in> set out. x \<in> set acc \<or> next_addr (fst st) \<le> x)"
        unfolding step using IH [THEN conjunct2, THEN conjunct2] by (fastforce simp: b_def)
      show ?thesis by (intro conjI) (rule c1 c2 c3)+
    qed
  qed
qed

lemma map_data_frame:
  "(\<forall>a < next_addr g. objs (fst (snd (map_data E M src g))) a = objs g a)
   \<and> (\<forall>out. fst (map_data E M src g) = Inr out \<longrightarrow> (\<forall>b \<in> set out. next_addr g \<le> b))"
proof -
  define frame where "frame = (case src of DataFrame rows \<Rightarrow> Inr rows
      | RecordList as \<Rightarrow> if source_type M = ''csv'' then Inr (iterrows E (map (objs g) as))
                          else Inl ValueError)"
  show ?thesis
  proof (cases frame)
    case (Inl e)
    then show ?thesis by (simp add: map_data_def Let_def frame_def [symmetric])
  next
    case (Inr rows)
    let ?st = "(g, [Log INFO ''Starting data mapping process''])"
    note fr = map_rows_frame [of ?st E M rows "[]"]
    obtain r st' where mr: "map_rows E M rows [] ?st = (r, st')"
      by (cases "map_rows E M rows [] ?st")
    from fr mr have o: "\<forall>a < next_addr g. objs (fst st') a = objs g a"
      and f: "\<forall>out. r = Inr out \<longrightarrow> (\<forall>b \<in> set out. next_addr g \<le> b)" by simp_all
    show ?thesis
      using Inr mr o f
      by (cases r) (simp_all add: map_data_def Let_def frame_def [symmetric])
  qed
qed

lemma secure_phi_data_frame:
  assumes "\<forall>a \<in> set data. a < next_addr h"
  shows "(\<forall>a < next_addr h. objs (fst (fst (snd (snd (secure_phi_data sh data (h, n)))))) a = objs h a)
     \<and> (\<forall>b \<in> set (fst (secure_phi_data sh data (h, n))). next_addr h \<le> b)"
proof -
  define fs where "fs = (if phi_fields sh = []
      then detect_phi_fields (map (objs (fst (h, n))) data) else phi_fields sh)"
  note spec = secure_records_spec [OF assms, of "cipher sh" fs n]
  have st: "fst (snd (snd (secure_phi_data sh data (h, n)))) =
      snd (secure_records (cipher sh) fs data (h, n))"
    by (simp add: secure_phi_data_state fs_def)
  have out: "fst (secure_phi_data sh data (h, n)) = fst (secure_records (cipher sh) fs data (h, n))"
    by (simp add: secure_phi_data_out fs_def)
  have a: "\<forall>a < next_addr h. objs (fst (fst (snd (snd (secure_phi_data sh data (h, n)))))) a = objs h a"
    unfolding st by (rule spec [THEN conjunct2, THEN conjunct2, THEN conjunct1])
  have b: "\<forall>b \<in> set (fst (secure_phi_data sh data (h, n))). next_addr h \<le> b"
    unfolding out spec [THEN conjunct1] by simp
  show ?thesis by (intro conjI) (rule a b)+
qed

text \<open>
  C9.  The secure operation (\<open>_secure_phi_data\<close>, and the end of
  \<open>load_and_secure_data\<close> in either mode) and \<open>map_data\<close> leave every object that
  existed before the call as it was, the input records among them, whether the call
  returns or raises: the handler writes to the copies it makes, the mapper to the
  records it creates, and the records they return are new objects.
\<close>

theorem stages_leave_inputs_unchanged:
  "((\<forall>a \<in> set data. a < next_addr h) \<longrightarrow>
      (\<forall>a < next_addr h.
         objs (fst (fst (snd (snd (secure_phi_data sh data (h, n)))))) a = objs h a)
    \<and> (\<forall>a \<in> set data.
         objs (fst (fst (snd (snd (secure_phi_data sh data (h, n)))))) a = objs h a)
    \<and> (\<forall>a \<in> set data.
         objs (fst (fst (snd (snd (secure_loaded sh data (h, n)))))) a = objs h a)
    \<and> (\<forall>b \<in> set (fst (secure_phi_data sh data (h, n))). next_addr h \<le> b))
   \<and> (\<forall>a < next_addr g. objs (fst (snd (map_data E M src g))) a = objs g a)
   \<and> (\<forall>as. src = RecordList as \<and> (\<forall>a \<in> set as. a < next_addr g) \<longrightarrow>
        (\<forall>a \<in> set as. objs (fst (snd (map_data E M src g))) a = objs g a))
   \<and> (\<forall>out. fst (map_data E M src g) = Inr out \<longrightarrow> (\<forall>b \<in> set out. next_addr g \<le> b))"
proof -
  have s: "(\<forall>a \<in> set data. a < next_addr h) \<longrightarrow>
      (\<forall>a < next_addr h.
         objs (fst (fst (snd (snd (secure_phi_data sh data (h, n)))))) a = objs h a)
    \<and> (\<forall>a \<in> set data.
         objs (fst (fst (snd (snd (secure_phi_data sh data (h, n)))))) a = objs h a)
    \<and> (\<forall>a \<in> set data.
         objs (fst (fst (snd (snd (secure_loaded sh data (h, n)))))) a = objs h a)
    \<and> (\<forall>b \<in> set (fst (secure_phi_data sh data (h, n))). next_addr h \<le> b)"
  proof
    assume al: "\<forall>a \<in> set data. a < next_addr h"
    note fr = secure_phi_data_frame [OF al, of sh n]
    have 1: "\<forall>a < next_addr h.
         objs (fst (fst (snd (snd (secure_phi_data sh data (h, n)))))) a = objs h a"
      by (rule fr [THEN conjunct1])
    have 2: "\<forall>a \<in> set data.
         objs (fst (fst (snd (snd (secure_phi_data sh data (h, n)))))) a = objs h a"
      using 1 al by blast
    have 3: "\<forall>a \<in> set data.
         objs (fst (fst (snd (snd (secure_loaded sh data (h, n)))))) a = objs h a"
      using 2 by (simp add: secure_loaded_def)
    have 4: "\<forall>b \<in> set (fst (secure_phi_data sh data (h, n))). next_addr h \<le> b"
      by (rule fr [THEN conjunct2])
    show "(\<forall>a < next_addr h.
         objs (fst (fst (snd (snd (secure_phi_data sh data (h, n)))))) a = objs h a)
    \<and> (\<forall>a \<in> set data.
         objs (fst (fst (snd (snd (secure_phi_data sh data (h, n)))))) a = objs h a)
    \<and> (\<forall>a \<in> set data.
         objs (fst (fst (snd (snd (secure_loaded sh data (h, n)))))) a = objs h a)
    \<and> (\<forall>b \<in> set (fst (secure_phi_data sh data (h, n))). next_addr h \<le> b)"
      by (intro conjI) (rule 1 2 3 4)+
  qed
  note m = map_data_frame [of g E M src]
  have m1: "\<forall>a < next_addr g. objs (fst (snd (map_data E M src g))) a = objs g a"
    by (rule m [THEN conjunct1])
  have m2: "\<forall>as. src = RecordList as \<and> (\<forall>a \<in> set as. a < next_addr g) \<longrightarrow>
        (\<forall>a \<in> set as. objs (fst (snd (map_data E M src g))) a = objs g a)"
    using m1 by blast
  have m3: "\<forall>out. fst (map_data E M src g) = Inr out \<longrightarrow> (\<forall>b \<in> set out. next_addr g \<le> b)"
    by (rule m [THEN conjunct2])
  show ?thesis by (intro conjI) (rule s m1 m2 m3)+
qed

theorem stages_leave_inputs_unchanged_witness:
  "objs (fst (fst (snd (snd (secure_phi_data
       (fst (new_security_handler tag_cipher True (Some [''ssn''])))
       [0] (ssn_store, 0)))))) 0 = [(''ssn'', PStr ''123-45-6789'')]
   \<and> objs (fst (snd (map_data plain_env dob_template (RecordList [0]) dob_store))) 0
       = [(''id'', Scalar (PStr ''7'')), (''dob'', Scalar (PStr ''03/15/2023''))]
   \<and> fst (map_data plain_env dob_template (RecordList [0]) dob_store) = Inr [1]"
proof -
  let ?sh = "fst (new_security_handler tag_cipher True (Some [''ssn'']))"
  note t = stages_leave_inputs_unchanged [of "[0]" ssn_store ?sh 0 dob_store plain_env
      dob_template "RecordList [0]"]
  have al: "\<forall>a \<in> set [0]. a < next_addr ssn_store"
    by (simp add: ssn_store_def alloc_def empty_heap_def)
  have s0: "objs ssn_store 0 = [(''ssn'', PStr ''123-45-6789'')]"
    by (simp add: ssn_store_def alloc_def empty_heap_def)
  have d0: "objs dob_store 0 = [(''id'', Scalar (PStr ''7'')), (''dob'', Scalar (PStr ''03/15/2023''))]"
    by (simp add: dob_store_def alloc_def empty_heap_def)
  have dn: "(0::nat) < next_addr dob_store"
    by (simp add: dob_store_def alloc_def empty_heap_def)
  from t [THEN conjunct1, THEN mp, OF al, THEN conjunct2, THEN conjunct1]
  have 1: "objs (fst (fst (snd (snd (secure_phi_data ?sh [0] (ssn_store, 0)))))) 0 =
      [(''ssn'', PStr ''123-45-6789'')]"
    by (simp add: s0)
  from t [THEN conjunct2, THEN conjunct1, rule_format, OF dn]
  have 2: "objs (fst (snd (map_data plain_env dob_template (RecordList [0]) dob_store))) 0
       = [(''id'', Scalar (PStr ''7'')), (''dob'', Scalar (PStr ''03/15/2023''))]"
    by (simp add: d0)
  have 3: "fst (map_data plain_env dob_template (RecordList [0]) dob_store) = Inr [1]"
    by code_simp
  show ?thesis by (intro conjI) (rule 1 2 3)+
qed

end
